theory Spec2Isabelle
  imports Main "HOL-Library.AList" "HOL-Library.Char_ord" "HOL-Library.List_Lexorder"
begin

section \<open>Component keys (dagster_dg/component.py, lines 15-62)\<close>

text \<open>
  Python strings are modelled as \<^typ>\<open>string\<close>; their comparison is the lexicographic
  order on character codes, which is the order \<^theory_text>\<open>List_Lexorder\<close> puts on lists of
  characters. A \<^verbatim>\<open>Path\<close> is modelled by its string form, so \<^verbatim>\<open>str(path)\<close> is the
  identity.
\<close>

type_synonym path = string

text \<open>
  A cache key is a tuple of strings in the program; only its truth value (a tuple is
  false exactly when it is empty) and its use as a dictionary key matter here.
\<close>

type_synonym cache_key = "string list"

datatype component_key =
    GlobalComponentKey string string
  | LocalComponentKey string string string

text \<open>The exceptions the module can raise, each with what its message carries.\<close>

datatype error =
    ValueError_invalid_type_name string
  | ValueError_expected_global component_key
  | TypeError
  | AttributeError
  | KeyError_component component_key
  | KeyError_path path
  | JSONDecodeError
  | ExternalCommandError

text \<open>The character class \<^verbatim>\<open>[a-zA-Z0-9_]\<close> of \<^verbatim>\<open>COMPONENT_TYPE_REGEX\<close>.\<close>

definition word_char :: "char \<Rightarrow> bool" where
  "word_char c =
     ((CHR ''a'' \<le> c \<and> c \<le> CHR ''z'') \<or> (CHR ''A'' \<le> c \<and> c \<le> CHR ''Z'')
      \<or> (CHR ''0'' \<le> c \<and> c \<le> CHR ''9'') \<or> c = CHR ''_'')"

text \<open>\<^verbatim>\<open>str.endswith\<close>.\<close>

definition endswith :: "string \<Rightarrow> string \<Rightarrow> bool" where
  "endswith s suf = (length suf \<le> length s \<and> drop (length s - length suf) s = suf)"

text \<open>
  \<^verbatim>\<open>COMPONENT_TYPE_REGEX.match\<close> for the pattern
  \<^verbatim>\<open>^([a-zA-Z0-9_]+)@([a-zA-Z0-9_]+)$\<close>. In Python's \<^verbatim>\<open>re\<close> the anchor \<^verbatim>\<open>$\<close>
  matches at the end of the string and also just before a newline that ends the string,
  so one trailing newline is dropped before the two groups are read. The groups are
  determined: \<^verbatim>\<open>@\<close> is not in the class, so the first group is the longest prefix of
  class characters.
\<close>

definition COMPONENT_TYPE_REGEX_match :: "string \<Rightarrow> (string \<times> string) option" where
  "COMPONENT_TYPE_REGEX_match s =
     (let body = (if endswith s [CHR 0x0A] then butlast s else s);
          g1 = takeWhile word_char body;
          rest = dropWhile word_char body
      in case rest of
           [] \<Rightarrow> None
         | c # g2 \<Rightarrow>
             if c = CHR ''@'' \<and> g1 \<noteq> [] \<and> g2 \<noteq> [] \<and> list_all word_char g2
             then Some (g1, g2) else None)"

definition name_and_namespace_from_type :: "string \<Rightarrow> error + (string \<times> string)" where
  "name_and_namespace_from_type typename =
     (case COMPONENT_TYPE_REGEX_match typename of
        None \<Rightarrow> Inl (ValueError_invalid_type_name typename)
      | Some g \<Rightarrow> Inr g)"

fun to_typename :: "component_key \<Rightarrow> string" where
  "to_typename (GlobalComponentKey name namespace) = name @ ''@'' @ namespace"
| "to_typename (LocalComponentKey name namespace dirpath) =
     name @ ''@'' @ namespace @ '' ('' @ dirpath @ '')''"

definition GlobalComponentKey_from_typename :: "string \<Rightarrow> error + component_key" where
  "GlobalComponentKey_from_typename typename =
     (case name_and_namespace_from_type typename of
        Inl e \<Rightarrow> Inl e
      | Inr (name, namespace) \<Rightarrow> Inr (GlobalComponentKey name namespace))"

definition LocalComponentKey_from_type :: "string \<Rightarrow> string \<Rightarrow> error + component_key" where
  "LocalComponentKey_from_type typename dirpath =
     (case name_and_namespace_from_type typename of
        Inl e \<Rightarrow> Inl e
      | Inr (name, namespace) \<Rightarrow> Inr (LocalComponentKey name namespace dirpath))"

definition from_typename :: "string \<Rightarrow> string \<Rightarrow> error + component_key" where
  "from_typename typename dirpath =
     (if endswith typename ''.py'' then LocalComponentKey_from_type typename dirpath
      else GlobalComponentKey_from_typename typename)"

fun is_global :: "component_key \<Rightarrow> bool" where
  "is_global (GlobalComponentKey _ _) = True"
| "is_global (LocalComponentKey _ _ _) = False"

section \<open>JSON values and the descriptor (lines 65-90)\<close>

text \<open>
  What \<^verbatim>\<open>json.loads\<close> returns: an object is a Python dictionary, kept here as the
  list of its items in insertion order. Numbers are never inspected by the module; a
  float is kept as its literal.
\<close>

datatype json =
    JNull
  | JBool bool
  | JInt int
  | JFloat string
  | JStr string
  | JArr "json list"
  | JObj "(string \<times> json) list"

text \<open>
  The dataclass \<^verbatim>\<open>RemoteComponentType\<close>. None of its six fields has a default value,
  and a dataclass does not check the annotated types, so each field holds whatever JSON
  value was passed; an absent summary is \<^term>\<open>JNull\<close>.
\<close>

record RemoteComponentType =
  name :: json
  package :: json
  summary :: json
  description :: json
  scaffold_params_schema :: json
  component_params_schema :: json

definition RemoteComponentType_fields :: "string list" where
  "RemoteComponentType_fields =
     [''name'', ''package'', ''summary'', ''description'',
      ''scaffold_params_schema'', ''component_params_schema'']"

text \<open>
  The call \<^verbatim>\<open>RemoteComponentType(**metadata)\<close>: the argument must be a mapping, every
  key of it must be a field, and every field must be among the keys; anything else is a
  \<^verbatim>\<open>TypeError\<close>.
\<close>

definition RemoteComponentType_kwargs :: "json \<Rightarrow> error + RemoteComponentType" where
  "RemoteComponentType_kwargs metadata =
     (case metadata of
        JObj kw \<Rightarrow>
          (if list_all (\<lambda>k. k \<in> set RemoteComponentType_fields) (map fst kw) then
             (case (map_of kw ''name'', map_of kw ''package'', map_of kw ''summary'',
                    map_of kw ''description'', map_of kw ''scaffold_params_schema'',
                    map_of kw ''component_params_schema'') of
                (Some a, Some b, Some c, Some d, Some e, Some f) \<Rightarrow>
                  Inr \<lparr>name = a, package = b, summary = c, description = d,
                       scaffold_params_schema = e, component_params_schema = f\<rparr>
              | _ \<Rightarrow> Inl TypeError)
           else Inl TypeError)
      | _ \<Rightarrow> Inl TypeError)"

text \<open>
  A Python dictionary from keys to descriptors, as the list of its items in insertion
  order. \<^verbatim>\<open>data[k] = v\<close> is \<^const>\<open>AList.update\<close>: it replaces the value of a key that
  is present and appends a new key at the end.
\<close>

type_synonym component_dict = "(component_key \<times> RemoteComponentType) list"

definition dict_update :: "component_dict \<Rightarrow> component_dict \<Rightarrow> component_dict" where
  "dict_update data other = fold (\<lambda>(k, v). AList.update k v) other data"

text \<open>
  The loop of \<^verbatim>\<open>_get_remote_type_mapping_from_raw_data\<close>. In the assignment
  \<^verbatim>\<open>data[GlobalComponentKey.from_typename(typename)] = RemoteComponentType(**metadata)\<close>
  Python evaluates the right-hand side first.
\<close>

fun get_remote_type_mapping_loop ::
  "(string \<times> json) list \<Rightarrow> component_dict \<Rightarrow> error + component_dict" where
  "get_remote_type_mapping_loop [] data = Inr data"
| "get_remote_type_mapping_loop ((typename, metadata) # rest) data =
     (case RemoteComponentType_kwargs metadata of
        Inl e \<Rightarrow> Inl e
      | Inr v \<Rightarrow>
          (case GlobalComponentKey_from_typename typename of
             Inl e \<Rightarrow> Inl e
           | Inr k \<Rightarrow> get_remote_type_mapping_loop rest (AList.update k v data)))"

text \<open>\<^verbatim>\<open>raw_data.items()\<close> exists only on a dictionary.\<close>

definition get_remote_type_mapping_from_raw_data :: "json \<Rightarrow> error + component_dict" where
  "get_remote_type_mapping_from_raw_data raw_data =
     (case raw_data of
        JObj items \<Rightarrow> get_remote_type_mapping_loop items []
      | _ \<Rightarrow> Inl AttributeError)"

fun get_local_type_mapping_loop ::
  "(string \<times> json) list \<Rightarrow> path \<Rightarrow> component_dict \<Rightarrow> error + component_dict" where
  "get_local_type_mapping_loop [] dirpath data = Inr data"
| "get_local_type_mapping_loop ((typename, metadata) # rest) dirpath data =
     (case RemoteComponentType_kwargs metadata of
        Inl e \<Rightarrow> Inl e
      | Inr v \<Rightarrow>
          (case LocalComponentKey_from_type typename dirpath of
             Inl e \<Rightarrow> Inl e
           | Inr k \<Rightarrow> get_local_type_mapping_loop rest dirpath (AList.update k v data)))"

definition get_local_type_mapping_from_raw_data ::
  "json \<Rightarrow> path \<Rightarrow> error + component_dict" where
  "get_local_type_mapping_from_raw_data raw_data dirpath =
     (case raw_data of
        JObj items \<Rightarrow> get_local_type_mapping_loop items dirpath []
      | _ \<Rightarrow> Inl AttributeError)"

section \<open>The registry and its queries (lines 173-199)\<close>

record RemoteComponentRegistry =
  components :: component_dict

definition RemoteComponentRegistry_empty :: RemoteComponentRegistry where
  "RemoteComponentRegistry_empty = \<lparr>components = []\<rparr>"

definition has_global :: "RemoteComponentRegistry \<Rightarrow> component_key \<Rightarrow> bool" where
  "has_global r key = (key \<in> set (map fst (components r)))"

definition get :: "RemoteComponentRegistry \<Rightarrow> component_key \<Rightarrow> error + RemoteComponentType" where
  "get r key =
     (case map_of (components r) key of
        None \<Rightarrow> Inl (KeyError_component key)
      | Some v \<Rightarrow> Inr v)"

definition get_global ::
  "RemoteComponentRegistry \<Rightarrow> component_key \<Rightarrow> error + RemoteComponentType" where
  "get_global r key =
     (if \<not> is_global key then Inl (ValueError_expected_global key)
      else (case map_of (components r) key of
              None \<Rightarrow> Inl (KeyError_component key)
            | Some v \<Rightarrow> Inr v))"

text \<open>
  \<^verbatim>\<open>sorted(..., key=lambda k: k.to_typename())\<close> is a stable sort, as \<^const>\<open>sort_key\<close>
  is; the generator's output is collected in a list.
\<close>

definition global_keys :: "RemoteComponentRegistry \<Rightarrow> component_key list" where
  "global_keys r = filter is_global (sort_key to_typename (map fst (components r)))"

fun global_items_loop ::
  "RemoteComponentRegistry \<Rightarrow> component_key list \<Rightarrow>
   error + (component_key \<times> RemoteComponentType) list" where
  "global_items_loop r [] = Inr []"
| "global_items_loop r (key # keys) =
     (case get_global r key of
        Inl e \<Rightarrow> Inl e
      | Inr v \<Rightarrow>
          (case global_items_loop r keys of
             Inl e \<Rightarrow> Inl e
           | Inr rest \<Rightarrow> Inr ((key, v) # rest)))"

definition global_items ::
  "RemoteComponentRegistry \<Rightarrow> error + (component_key \<times> RemoteComponentType) list" where
  "global_items r = global_items_loop r (global_keys r)"

section \<open>The context, the cache and the external process\<close>

text \<open>
  \<^verbatim>\<open>DgContext\<close> is not part of this module; the module uses the members below. The
  external command either returns its output or fails, and a failure propagates.
\<close>

record DgContext =
  use_dg_managed_environment :: bool
  has_cache :: bool
  get_cache_key :: "string \<Rightarrow> cache_key"
  get_cache_key_for_local_components :: "path \<Rightarrow> cache_key"
  external_components_command :: "string list \<Rightarrow> error + string"

text \<open>
  What the module takes from the Python runtime: \<^verbatim>\<open>json.loads\<close> (\<^term>\<open>None\<close> is a
  \<^verbatim>\<open>JSONDecodeError\<close>), \<^verbatim>\<open>json.dumps\<close>, and the order in which a set of paths is
  iterated, which the language leaves open. The theorems hold for every choice of the
  three.
\<close>

record runtime =
  json_loads :: "string \<Rightarrow> json option"
  json_dumps :: "json \<Rightarrow> string"
  set_order :: "path list \<Rightarrow> path list"

text \<open>
  The world outside the module: the cache store, the list of the calls made to the
  external process and to \<^verbatim>\<open>cache.set\<close>, in order, and how often
  \<^verbatim>\<open>ensure_uv_lock\<close> ran.
\<close>

record dg_state =
  cache :: "cache_key \<rightharpoonup> string"
  commands :: "string list list"
  cache_sets :: "(cache_key \<times> string) list"
  uv_lock_calls :: nat

text \<open>
  Modelled from the spec: \<^verbatim>\<open>is_valid_json\<close> of \<^verbatim>\<open>dagster_dg.utils\<close>, which is not
  among the sources; the string is syntactically valid JSON.
\<close>

definition is_valid_json :: "runtime \<Rightarrow> string \<Rightarrow> bool" where
  "is_valid_json rt v = (json_loads rt v \<noteq> None)"

text \<open>
  Modelled from the spec: the cache store of \<^verbatim>\<open>dagster_dg.cache\<close>, which is not among
  the sources; \<^verbatim>\<open>cache.get(key)\<close> is an optional string and \<^verbatim>\<open>cache.set(key, value)\<close>
  stores one.
\<close>

definition cache_get :: "dg_state \<Rightarrow> cache_key \<Rightarrow> string option" where
  "cache_get s key = cache s key"

definition cache_set :: "cache_key \<Rightarrow> string \<Rightarrow> dg_state \<Rightarrow> dg_state" where
  "cache_set key v s =
     s\<lparr>cache := (cache s)(key \<mapsto> v), cache_sets := cache_sets s @ [(key, v)]\<rparr>"

definition run_command :: "DgContext \<Rightarrow> string list \<Rightarrow> dg_state \<Rightarrow> (error + string) \<times> dg_state" where
  "run_command ctx args s =
     (external_components_command ctx args, s\<lparr>commands := commands s @ [args]\<rparr>)"

definition ensure_uv_lock :: "dg_state \<Rightarrow> dg_state" where
  "ensure_uv_lock s = s\<lparr>uv_lock_calls := Suc (uv_lock_calls s)\<rparr>"

section \<open>Retrieving the local component types (lines 105-137)\<close>

text \<open>
  Lines 111-116: the loop over \<^verbatim>\<open>paths\<close>. It reads the cache and changes only \<^verbatim>\<open>data\<close>
  and the set \<^verbatim>\<open>paths_to_fetch\<close>, kept as a list without repetitions.
  \<^verbatim>\<open>set.remove\<close> raises \<^verbatim>\<open>KeyError\<close> when the element is not in the set.
\<close>

fun cached_paths_loop ::
  "runtime \<Rightarrow> DgContext \<Rightarrow> dg_state \<Rightarrow> path list \<Rightarrow> component_dict \<Rightarrow> path list \<Rightarrow>
   error + (component_dict \<times> path list)" where
  "cached_paths_loop rt ctx s [] data paths_to_fetch = Inr (data, paths_to_fetch)"
| "cached_paths_loop rt ctx s (path # rest) data paths_to_fetch =
     (case cache_get s (get_cache_key_for_local_components ctx path) of
        None \<Rightarrow> cached_paths_loop rt ctx s rest data paths_to_fetch
      | Some raw_data \<Rightarrow>
          if raw_data = [] then cached_paths_loop rt ctx s rest data paths_to_fetch
          else
            (case json_loads rt raw_data of
               None \<Rightarrow> Inl JSONDecodeError
             | Some j \<Rightarrow>
                 (case get_local_type_mapping_from_raw_data j path of
                    Inl e \<Rightarrow> Inl e
                  | Inr m \<Rightarrow>
                      if path \<in> set paths_to_fetch
                      then cached_paths_loop rt ctx s rest (dict_update data m)
                             (removeAll path paths_to_fetch)
                      else Inl (KeyError_path path))))"

text \<open>Lines 127-128: every path to fetch is given the whole parsed response.\<close>

fun fetched_paths_loop ::
  "json \<Rightarrow> path list \<Rightarrow> component_dict \<Rightarrow> error + component_dict" where
  "fetched_paths_loop local_component_data [] data = Inr data"
| "fetched_paths_loop local_component_data (path # rest) data =
     (case get_local_type_mapping_from_raw_data local_component_data path of
        Inl e \<Rightarrow> Inl e
      | Inr m \<Rightarrow> fetched_paths_loop local_component_data rest (dict_update data m))"

text \<open>\<^verbatim>\<open>local_component_data.get(str(path), {})\<close>.\<close>

definition json_get_default :: "json \<Rightarrow> string \<Rightarrow> json \<Rightarrow> error + json" where
  "json_get_default j k dflt =
     (case j of
        JObj items \<Rightarrow> (case map_of items k of None \<Rightarrow> Inr dflt | Some v \<Rightarrow> Inr v)
      | _ \<Rightarrow> Inl AttributeError)"

text \<open>Lines 131-135: the cache writes, one path after the other.\<close>

fun cache_write_loop ::
  "runtime \<Rightarrow> DgContext \<Rightarrow> json \<Rightarrow> path list \<Rightarrow> dg_state \<Rightarrow> (error + unit) \<times> dg_state" where
  "cache_write_loop rt ctx local_component_data [] s = (Inr (), s)"
| "cache_write_loop rt ctx local_component_data (path # rest) s =
     (let cache_key = get_cache_key_for_local_components ctx path in
      case json_get_default local_component_data path (JObj []) of
        Inl e \<Rightarrow> (Inl e, s)
      | Inr d \<Rightarrow>
          (let data_for_path_json = json_dumps rt d in
           if cache_key \<noteq> [] \<and> is_valid_json rt data_for_path_json
           then cache_write_loop rt ctx local_component_data rest
                  (cache_set cache_key data_for_path_json s)
           else cache_write_loop rt ctx local_component_data rest s))"

text \<open>Lines 118-137.\<close>

definition fetch_local_component_types ::
  "runtime \<Rightarrow> DgContext \<Rightarrow> component_dict \<Rightarrow> path list \<Rightarrow> dg_state \<Rightarrow>
   (error + component_dict) \<times> dg_state" where
  "fetch_local_component_types rt ctx data paths_to_fetch s =
     (if paths_to_fetch = [] then (Inr data, s)
      else
        (let order = set_order rt paths_to_fetch in
         case run_command ctx (''list'' # ''local-component-types'' # order) s of
           (Inl e, s1) \<Rightarrow> (Inl e, s1)
         | (Inr raw_local_component_data, s1) \<Rightarrow>
             (case json_loads rt raw_local_component_data of
                None \<Rightarrow> (Inl JSONDecodeError, s1)
              | Some local_component_data \<Rightarrow>
                  (case fetched_paths_loop local_component_data order data of
                     Inl e \<Rightarrow> (Inl e, s1)
                   | Inr data' \<Rightarrow>
                       if has_cache ctx then
                         (case cache_write_loop rt ctx local_component_data order s1 of
                            (Inl e, s2) \<Rightarrow> (Inl e, s2)
                          | (Inr _, s2) \<Rightarrow> (Inr data', s2))
                       else (Inr data', s1)))))"

definition retrieve_local_component_types ::
  "runtime \<Rightarrow> DgContext \<Rightarrow> path list \<Rightarrow> dg_state \<Rightarrow> (error + component_dict) \<times> dg_state" where
  "retrieve_local_component_types rt ctx paths s =
     (case (if has_cache ctx then cached_paths_loop rt ctx s paths [] (remdups paths)
            else Inr ([], remdups paths)) of
        Inl e \<Rightarrow> (Inl e, s)
      | Inr (data, paths_to_fetch) \<Rightarrow> fetch_local_component_types rt ctx data paths_to_fetch s)"

section \<open>Building the registry (lines 141-171)\<close>

text \<open>Lines 152-162: the raw registry data, from the cache or from the external process.\<close>

definition raw_registry_data_of ::
  "runtime \<Rightarrow> DgContext \<Rightarrow> dg_state \<Rightarrow> (error + string) \<times> dg_state" where
  "raw_registry_data_of rt ctx s =
     (let cache_key = (if has_cache ctx then get_cache_key ctx ''component_registry_data'' else []);
          raw_registry_data = (if has_cache ctx then cache_get s cache_key else None)
      in case raw_registry_data of
           Some v \<Rightarrow>
             if v \<noteq> [] then (Inr v, s)
             else
               (case run_command ctx [''list'', ''component-types''] s of
                  (Inl e, s1) \<Rightarrow> (Inl e, s1)
                | (Inr r, s1) \<Rightarrow>
                    if has_cache ctx \<and> cache_key \<noteq> [] \<and> is_valid_json rt r
                    then (Inr r, cache_set cache_key r s1) else (Inr r, s1))
         | None \<Rightarrow>
             (case run_command ctx [''list'', ''component-types''] s of
                (Inl e, s1) \<Rightarrow> (Inl e, s1)
              | (Inr r, s1) \<Rightarrow>
                  if has_cache ctx \<and> cache_key \<noteq> [] \<and> is_valid_json rt r
                  then (Inr r, cache_set cache_key r s1) else (Inr r, s1)))"

text \<open>
  \<^verbatim>\<open>RemoteComponentRegistry.from_dg_context\<close>. The optional sequence of directories is
  used when it is neither \<^verbatim>\<open>None\<close> nor empty.
\<close>

definition from_dg_context ::
  "runtime \<Rightarrow> DgContext \<Rightarrow> path list option \<Rightarrow> dg_state \<Rightarrow>
   (error + RemoteComponentRegistry) \<times> dg_state" where
  "from_dg_context rt ctx local_component_type_dirs s0 =
     (let s = (if use_dg_managed_environment ctx then ensure_uv_lock s0 else s0) in
      case raw_registry_data_of rt ctx s of
        (Inl e, s1) \<Rightarrow> (Inl e, s1)
      | (Inr raw_registry_data, s1) \<Rightarrow>
          (case json_loads rt raw_registry_data of
             None \<Rightarrow> (Inl JSONDecodeError, s1)
           | Some j \<Rightarrow>
               (case get_remote_type_mapping_from_raw_data j of
                  Inl e \<Rightarrow> (Inl e, s1)
                | Inr m \<Rightarrow>
                    (let component_data = dict_update [] m in
                     case local_component_type_dirs of
                       None \<Rightarrow> (Inr \<lparr>components = component_data\<rparr>, s1)
                     | Some dirs \<Rightarrow>
                         if dirs = [] then (Inr \<lparr>components = component_data\<rparr>, s1)
                         else
                           (case retrieve_local_component_types rt ctx dirs s1 of
                              (Inl e, s2) \<Rightarrow> (Inl e, s2)
                            | (Inr local_data, s2) \<Rightarrow>
                                (Inr \<lparr>components = dict_update component_data local_data\<rparr>,
                                 s2))))))"

section \<open>Conditions used in the statements\<close>

text \<open>
  A metadata value is an object whose fields are exactly the six fields of the
  descriptor.
\<close>

definition has_descriptor_fields :: "json \<Rightarrow> bool" where
  "has_descriptor_fields metadata =
     (case metadata of
        JObj kw \<Rightarrow> set (map fst kw) = set RemoteComponentType_fields
      | _ \<Rightarrow> False)"

text \<open>A descriptor holds the six values that a metadata object gives to the six fields.\<close>

definition holds_metadata :: "json \<Rightarrow> RemoteComponentType \<Rightarrow> bool" where
  "holds_metadata metadata t =
     (case metadata of
        JObj kw \<Rightarrow>
          map_of kw ''name'' = Some (name t) \<and> map_of kw ''package'' = Some (package t)
          \<and> map_of kw ''summary'' = Some (summary t)
          \<and> map_of kw ''description'' = Some (description t)
          \<and> map_of kw ''scaffold_params_schema'' = Some (scaffold_params_schema t)
          \<and> map_of kw ''component_params_schema'' = Some (component_params_schema t)
      | _ \<Rightarrow> False)"


text \<open>
  The entry cached for a directory is valid: it is there, it is not empty, it parses, and
  its listing translates into local entries.
\<close>

definition cached_entry_valid :: "runtime \<Rightarrow> DgContext \<Rightarrow> dg_state \<Rightarrow> path \<Rightarrow> bool" where
  "cached_entry_valid rt ctx s p =
     (case cache_get s (get_cache_key_for_local_components ctx p) of
        None \<Rightarrow> False
      | Some v \<Rightarrow>
          v \<noteq> [] \<and>
          (case json_loads rt v of
             None \<Rightarrow> False
           | Some j \<Rightarrow>
               (case get_local_type_mapping_from_raw_data j p of
                  Inl e \<Rightarrow> False
                | Inr m \<Rightarrow> True)))"

text \<open>The entry cached for a directory is missing, empty or valid.\<close>

definition cached_entry_ok :: "runtime \<Rightarrow> DgContext \<Rightarrow> dg_state \<Rightarrow> path \<Rightarrow> bool" where
  "cached_entry_ok rt ctx s p =
     (case cache_get s (get_cache_key_for_local_components ctx p) of
        None \<Rightarrow> True
      | Some v \<Rightarrow> v = [] \<or> cached_entry_valid rt ctx s p)"


section \<open>Concrete inputs used in the evaluations below\<close>

definition example_metadata :: json where
  "example_metadata =
     JObj [(''name'', JStr ''Foo''), (''package'', JStr ''p''), (''summary'', JNull),
           (''description'', JNull), (''scaffold_params_schema'', JNull),
           (''component_params_schema'', JNull)]"

definition example_descriptor :: RemoteComponentType where
  "example_descriptor =
     \<lparr>name = JStr ''Foo'', package = JStr ''p'', summary = JNull, description = JNull,
      scaffold_params_schema = JNull, component_params_schema = JNull\<rparr>"

definition example_registry :: RemoteComponentRegistry where
  "example_registry =
     \<lparr>components =
        [(GlobalComponentKey ''b'' ''ns'', example_descriptor),
         (LocalComponentKey ''a'' ''ns'' ''/d'', example_descriptor),
         (GlobalComponentKey ''a'' ''ns'', example_descriptor)]\<rparr>"

text \<open>
  A runtime whose \<^verbatim>\<open>json.loads\<close> and \<^verbatim>\<open>json.dumps\<close> are given on the texts and
  values that occur in the evaluations; every other text used there is not JSON.
\<close>

definition example_listing_text :: string where
  \<open>example_listing_text =
     ''{"Foo@ns": {"name": "Foo", "package": "p", "summary": null, "description": null, "scaffold_params_schema": null, "component_params_schema": null}}''\<close>

definition example_batch_text :: string where
  \<open>example_batch_text =
     ''{"/b": {"Bar@ns": {"name": "Foo", "package": "p", "summary": null, "description": null, "scaffold_params_schema": null, "component_params_schema": null}}}''\<close>

definition example_bad_batch_text :: string where
  \<open>example_bad_batch_text =
     ''{"/c": {"bad name@ns": {"name": "Foo", "package": "p", "summary": null, "description": null, "scaffold_params_schema": null, "component_params_schema": null}}}''\<close>

definition example_loads :: "string \<Rightarrow> json option" where
  "example_loads t =
     (if t = ''{}'' then Some (JObj [])
      else if t = example_listing_text then Some (JObj [(''Foo@ns'', example_metadata)])
      else if t = example_batch_text
        then Some (JObj [(''/b'', JObj [(''Bar@ns'', example_metadata)])])
      else if t = example_bad_batch_text
        then Some (JObj [(''/c'', JObj [(''bad name@ns'', example_metadata)])])
      else None)"

definition example_dumps :: "json \<Rightarrow> string" where
  "example_dumps j = (if j = JObj [] then ''{}'' else ''null'')"

definition example_runtime :: runtime where
  "example_runtime =
     \<lparr>json_loads = example_loads, json_dumps = example_dumps, set_order = (\<lambda>ps. ps)\<rparr>"

definition example_command :: "string list \<Rightarrow> error + string" where
  "example_command args =
     (if args = [''list'', ''component-types''] then Inr example_listing_text
      else if args = [''list'', ''local-component-types'', ''/b''] then Inr example_batch_text
      else if args = [''list'', ''local-component-types'', ''/c'']
        then Inr example_bad_batch_text
      else if args = [''list'', ''local-component-types'', ''/e''] then Inr ''{}''
      else if args = [''list'', ''local-component-types'', ''/x''] then Inr ''<html>''
      else Inl ExternalCommandError)"

definition example_context :: DgContext where
  "example_context =
     \<lparr>use_dg_managed_environment = False, has_cache = True,
      get_cache_key = (\<lambda>scope. [''dg'', scope]),
      get_cache_key_for_local_components = (\<lambda>p. [''dg'', ''local'', p]),
      external_components_command = example_command\<rparr>"

text \<open>A cache that holds the global listing and the (empty) listing of \<^verbatim>\<open>/a\<close>.\<close>

definition example_state :: dg_state where
  "example_state =
     \<lparr>cache = [[''dg'', ''component_registry_data''] \<mapsto> example_listing_text,
               [''dg'', ''local'', ''/a''] \<mapsto> ''{}''],
      commands = [], cache_sets = [], uv_lock_calls = 0\<rparr>"

text \<open>
  A cache whose entries for the global listing and for the directory \<^verbatim>\<open>/a\<close> are not
  JSON.
\<close>

definition example_corrupt_state :: dg_state where
  "example_corrupt_state =
     \<lparr>cache = [[''dg'', ''component_registry_data''] \<mapsto> ''<html>'',
               [''dg'', ''local'', ''/a''] \<mapsto> ''<html>''],
      commands = [], cache_sets = [], uv_lock_calls = 0\<rparr>"

text \<open>
  A cache that holds the global listing, the (empty) listing of \<^verbatim>\<open>/a\<close> and, for
  \<^verbatim>\<open>/x\<close>, an entry that is not JSON.
\<close>

definition example_mixed_state :: dg_state where
  "example_mixed_state =
     \<lparr>cache = [[''dg'', ''component_registry_data''] \<mapsto> example_listing_text,
               [''dg'', ''local'', ''/a''] \<mapsto> ''{}'',
               [''dg'', ''local'', ''/x''] \<mapsto> ''<html>''],
      commands = [], cache_sets = [], uv_lock_calls = 0\<rparr>"

section \<open>Properties of the key model\<close>

lemma endswith_subset: "endswith s suf \<Longrightarrow> set suf \<subseteq> set s"
  unfolding endswith_def using set_drop_subset[of "length s - length suf" s] by auto

lemma endswith_append: "endswith s suf \<Longrightarrow> \<exists>pre. s = pre @ suf"
  unfolding endswith_def by (metis append_take_drop_id)

lemma endswith_last: "endswith s suf \<Longrightarrow> suf \<noteq> [] \<Longrightarrow> last s = last suf"
  using endswith_append[of s suf] by auto

lemma word_char_simps [simp]:
  "\<not> word_char (CHR ''@'')" "\<not> word_char (CHR ''.'')" "\<not> word_char (CHR 0x0A)" "\<not> word_char (CHR '' '')"
  by (simp_all add: word_char_def)

lemma regex_match_SomeD:
  assumes "COMPONENT_TYPE_REGEX_match s = Some (g1, g2)"
  shows "(if endswith s [CHR 0x0A] then butlast s else s) = g1 @ CHR ''@'' # g2
         \<and> g1 \<noteq> [] \<and> g2 \<noteq> [] \<and> list_all word_char g1 \<and> list_all word_char g2"
proof -
  define body where "body = (if endswith s [CHR 0x0A] then butlast s else s)"
  from assms obtain c where d: "dropWhile word_char body = c # g2"
    and c: "c = CHR ''@''" and g1: "g1 = takeWhile word_char body" "g1 \<noteq> []"
    and g2: "g2 \<noteq> []" "list_all word_char g2"
    unfolding COMPONENT_TYPE_REGEX_match_def Let_def body_def[symmetric]
    by (auto split: list.splits if_splits)
  have "body = g1 @ CHR ''@'' # g2"
    using takeWhile_dropWhile_id[of word_char body] d c g1 by simp
  moreover have "list_all word_char g1"
    unfolding g1 list_all_iff using set_takeWhileD by fastforce
  ultimately show ?thesis using g1 g2 by (simp add: body_def)
qed

lemma regex_match_words:
  assumes "g1 \<noteq> []" "list_all word_char g1" "\<not> endswith (g1 @ CHR ''@'' # g2) [CHR 0x0A]"
  shows "COMPONENT_TYPE_REGEX_match (g1 @ CHR ''@'' # g2) =
     (if g2 \<noteq> [] \<and> list_all word_char g2 then Some (g1, g2) else None)"
proof -
  have t: "takeWhile word_char (g1 @ CHR ''@'' # g2) = g1"
    using assms by (simp add: takeWhile_append2 list_all_iff)
  have d: "dropWhile word_char (g1 @ CHR ''@'' # g2) = CHR ''@'' # g2"
    using assms by (simp add: dropWhile_append2 list_all_iff)
  show ?thesis using assms t d
    by (simp add: COMPONENT_TYPE_REGEX_match_def Let_def del: append.simps)
qed

lemma from_typename_py:
  assumes "endswith typename ''.py''"
  shows "from_typename typename d = Inl (ValueError_invalid_type_name typename)"
proof -
  have dot: "CHR ''.'' \<in> set typename" using endswith_subset[OF assms] by simp
  have "last typename = CHR ''y''" using endswith_last[OF assms] by simp
  then have nl: "\<not> endswith typename [CHR 0x0A]"
    using endswith_last[of typename "[CHR 0x0A]"] by auto
  have "COMPONENT_TYPE_REGEX_match typename = None"
  proof (rule ccontr)
    assume "COMPONENT_TYPE_REGEX_match typename \<noteq> None"
    then obtain g1 g2 where "COMPONENT_TYPE_REGEX_match typename = Some (g1, g2)" by auto
    from regex_match_SomeD[OF this] nl
    have "typename = g1 @ CHR ''@'' # g2" "list_all word_char g1" "list_all word_char g2"
      by simp_all
    with dot show False using word_char_simps(2) by (auto simp: list_all_iff)
  qed
  then show ?thesis
    using assms
    by (simp add: from_typename_def LocalComponentKey_from_type_def
        name_and_namespace_from_type_def)
qed

lemma global_text_parses:
  assumes "n \<noteq> []" "list_all word_char n" "ns \<noteq> []" "list_all word_char ns"
  shows "from_typename (to_typename (GlobalComponentKey n ns)) d = Inr (GlobalComponentKey n ns)"
proof -
  let ?s = "n @ CHR ''@'' # ns"
  have mem: "\<And>c. c \<in> set ?s \<Longrightarrow> word_char c \<or> c = CHR ''@''"
    using assms by (auto simp: list_all_iff)
  have nl: "\<not> endswith ?s [CHR 0x0A]"
    using endswith_subset[of ?s "[CHR 0x0A]"] mem[of "CHR 0x0A"] by auto
  have py: "\<not> endswith ?s ''.py''"
    using endswith_subset[of ?s "''.py''"] mem[of "CHR ''.''"] by auto
  have "COMPONENT_TYPE_REGEX_match ?s = Some (n, ns)"
    using regex_match_words[OF assms(1,2) nl] assms by simp
  then show ?thesis using py
    by (simp add: from_typename_def GlobalComponentKey_from_typename_def
        name_and_namespace_from_type_def)
qed

lemma local_text_not_parsed:
  assumes "n \<noteq> []" "list_all word_char n"
  shows "from_typename (to_typename (LocalComponentKey n ns dp)) d =
         Inl (ValueError_invalid_type_name (to_typename (LocalComponentKey n ns dp)))"
proof -
  let ?g2 = "ns @ '' ('' @ dp @ '')''"
  let ?s = "n @ CHR ''@'' # ?g2"
  have l: "last ?s = CHR '')''" by simp
  have nl: "\<not> endswith ?s [CHR 0x0A]"
    using endswith_last[of ?s "[CHR 0x0A]"] l by auto
  have py: "\<not> endswith ?s ''.py''"
    using endswith_last[of ?s "''.py''"] l by auto
  have "\<not> list_all word_char ?g2" using word_char_simps(4) by (auto simp: list_all_iff)
  then have "COMPONENT_TYPE_REGEX_match ?s = None"
    using regex_match_words[OF assms(1,2) nl] by simp
  then show ?thesis using py
    by (simp add: from_typename_def GlobalComponentKey_from_typename_def
        name_and_namespace_from_type_def)
qed

lemmas key_eval =
  from_typename_def endswith_def LocalComponentKey_from_type_def
  GlobalComponentKey_from_typename_def name_and_namespace_from_type_def
  COMPONENT_TYPE_REGEX_match_def word_char_def

text \<open>
  Claim C4. The claim: a typename ending in \<^verbatim>\<open>.py\<close> is parsed into a local key that
  carries the directory. In the code the branch for such a typename hands the whole
  typename, extension included, to the pattern \<^verbatim>\<open>name@namespace\<close>, which has no dot in
  its character class: at \<^verbatim>\<open>foo@bar.py\<close> the parse raises \<^verbatim>\<open>ValueError\<close> and no local
  key is produced.
\<close>

theorem from_typename_py_suffix_raises:
  "from_typename ''foo@bar.py'' ''/project/components'' =
     Inl (ValueError_invalid_type_name ''foo@bar.py'')"
  by (simp add: key_eval)

text \<open>
  The same holds at every typename that ends in \<^verbatim>\<open>.py\<close>: the local branch of
  \<^verbatim>\<open>ComponentKey.from_typename\<close> never returns a key.
\<close>

lemma from_typename_local_branch_dead:
  "endswith typename ''.py'' \<Longrightarrow> \<exists>e. from_typename typename d = Inl e"
  by (simp add: from_typename_py)

text \<open>
  The second half of the claim holds: a typename that does not end in \<^verbatim>\<open>.py\<close> and that
  the pattern matches gives the global key of the two groups, whatever the directory.
\<close>

lemma from_typename_global_branch:
  assumes "\<not> endswith typename ''.py''" "COMPONENT_TYPE_REGEX_match typename = Some (n, ns)"
  shows "from_typename typename d = Inr (GlobalComponentKey n ns)"
  using assms
  by (simp add: from_typename_def GlobalComponentKey_from_typename_def
      name_and_namespace_from_type_def)

text \<open>
  Claim C5, as stated, fails for the local variant: the text form of a local key is
  \<^verbatim>\<open>name@namespace (dirpath)\<close>, which the parser does not read back.
\<close>

theorem local_round_trip_counterexample:
  "from_typename (to_typename (LocalComponentKey ''Foo'' ''ns'' ''/d'')) ''/d''
     \<noteq> Inr (LocalComponentKey ''Foo'' ''ns'' ''/d'')"
  by (simp add: key_eval)

text \<open>
  Claim C5, amended. For a name and a namespace that each match \<^verbatim>\<open>[a-zA-Z0-9_]+\<close>:
  parsing the text form of the global key gives the key back, for any directory
  argument; parsing the text form of the local key raises \<^verbatim>\<open>ValueError\<close>, also when the
  key's own directory is supplied.
\<close>

theorem key_round_trip:
  assumes "n \<noteq> []" "list_all word_char n" "ns \<noteq> []" "list_all word_char ns"
  shows "from_typename (to_typename (GlobalComponentKey n ns)) d = Inr (GlobalComponentKey n ns)
       \<and> from_typename (to_typename (LocalComponentKey n ns dirpath)) dirpath =
           Inl (ValueError_invalid_type_name (to_typename (LocalComponentKey n ns dirpath)))"
  using global_text_parses[OF assms] local_text_not_parsed[OF assms(1,2)] by simp

theorem key_round_trip_witness:
  "''Foo'' \<noteq> [] \<and> list_all word_char ''Foo'' \<and> ''ns_1'' \<noteq> [] \<and> list_all word_char ''ns_1''
   \<and> from_typename (to_typename (GlobalComponentKey ''Foo'' ''ns_1'')) ''/d'' =
       Inr (GlobalComponentKey ''Foo'' ''ns_1'')
   \<and> from_typename (to_typename (LocalComponentKey ''Foo'' ''ns_1'' ''/d'')) ''/d'' =
       Inl (ValueError_invalid_type_name ''Foo@ns_1 (/d)'')"
proof -
  have h: "''Foo'' \<noteq> []" "list_all word_char ''Foo''" "''ns_1'' \<noteq> []"
    "list_all word_char ''ns_1''"
    by (simp_all add: word_char_def)
  show ?thesis
    using h key_round_trip[OF h, of "''/d''" "''/d''"] by simp
qed

section \<open>Properties of the registry queries\<close>

text \<open>
  Claim C3. The claim: \<^verbatim>\<open>has_global\<close> is false at every local key, also at one that
  the registry stores. The code tests membership among all the keys, with no check of
  the variant (the one \<^verbatim>\<open>get_global\<close> makes): at a stored local key it answers true.
\<close>

theorem has_global_true_at_stored_local_key:
  "has_global
     \<lparr>components =
        [(LocalComponentKey ''Foo'' ''ns'' ''/d'',
          \<lparr>name = JStr ''Foo'', package = JStr ''p'', summary = JNull, description = JNull,
           scaffold_params_schema = JNull, component_params_schema = JNull\<rparr>)]\<rparr>
     (LocalComponentKey ''Foo'' ''ns'' ''/d'') = True
   \<and> get_global
     \<lparr>components =
        [(LocalComponentKey ''Foo'' ''ns'' ''/d'',
          \<lparr>name = JStr ''Foo'', package = JStr ''p'', summary = JNull, description = JNull,
           scaffold_params_schema = JNull, component_params_schema = JNull\<rparr>)]\<rparr>
     (LocalComponentKey ''Foo'' ''ns'' ''/d'') =
       Inl (ValueError_expected_global (LocalComponentKey ''Foo'' ''ns'' ''/d''))"
  by (simp add: has_global_def get_global_def)

text \<open>
  The part of the claim that the code keeps: a local key that is not stored is not
  found, whatever global keys of the same name and namespace are stored.
\<close>

lemma has_global_local_key:
  "has_global r (LocalComponentKey n ns d) =
     (LocalComponentKey n ns d \<in> fst ` set (components r))"
  by (simp add: has_global_def)

lemma global_items_loop_ok:
  assumes "\<And>k. k \<in> set ks \<Longrightarrow> is_global k \<and> k \<in> fst ` set (components r)"
  shows "\<exists>items. global_items_loop r ks = Inr items \<and> map fst items = ks
           \<and> list_all (\<lambda>(k, v). map_of (components r) k = Some v) items"
  using assms
proof (induction ks)
  case Nil
  then show ?case by simp
next
  case (Cons k ks)
  then obtain items where i: "global_items_loop r ks = Inr items" "map fst items = ks"
    "list_all (\<lambda>(k, v). map_of (components r) k = Some v) items" by auto
  from Cons.prems[of k] have g: "is_global k" and "k \<in> fst ` set (components r)" by auto
  then obtain v where v: "map_of (components r) k = Some v"
    by (metis domD dom_map_of_conv_image_fst)
  show ?case using i g v by (simp add: get_global_def)
qed

text \<open>
  Claim C8. For a registry whose mapping is a dictionary (no key twice),
  \<^verbatim>\<open>global_items\<close> returns, without raising, a sequence that is sorted by the text form
  of the keys, names no key twice, and consists of exactly the stored pairs whose key is
  a global key.
\<close>

theorem global_items_sorted_exact:
  assumes "distinct (map fst (components r))"
  shows "\<exists>items. global_items r = Inr items
           \<and> sorted (map (\<lambda>(k, v). to_typename k) items)
           \<and> distinct (map fst items)
           \<and> set items = {(k, v). (k, v) \<in> set (components r) \<and> is_global k}"
proof -
  have mem: "\<And>k. k \<in> set (global_keys r) \<Longrightarrow> is_global k \<and> k \<in> fst ` set (components r)"
    by (auto simp: global_keys_def)
  from global_items_loop_ok[OF mem] obtain items where
    i: "global_items r = Inr items" "map fst items = global_keys r"
    "list_all (\<lambda>(k, v). map_of (components r) k = Some v) items"
    unfolding global_items_def by blast
  have m: "map (\<lambda>(k, v). to_typename k) items = map to_typename (global_keys r)"
    using i(2) by (metis (no_types, lifting) map_map map_eq_conv comp_apply case_prod_beta)
  have s: "sorted (map (\<lambda>(k, v). to_typename k) items)"
    unfolding m global_keys_def by (simp add: sorted_filter)
  have d: "distinct (map fst items)"
    unfolding i(2) global_keys_def using assms by simp
  have e: "set items = {(k, v). (k, v) \<in> set (components r) \<and> is_global k}"
  proof (intro set_eqI iffI)
    fix x assume x: "x \<in> set items"
    obtain k v where kv: "x = (k, v)" by (cases x)
    have "map_of (components r) k = Some v" using i(3) x kv by (auto simp: list_all_iff)
    then have "(k, v) \<in> set (components r)" by (rule map_of_SomeD)
    moreover have "k \<in> set (global_keys r)" using x kv i(2) by (metis fst_conv image_eqI set_map)
    then have "is_global k" by (simp add: global_keys_def)
    ultimately show "x \<in> {(k, v). (k, v) \<in> set (components r) \<and> is_global k}" using kv by simp
  next
    fix x assume "x \<in> {(k, v). (k, v) \<in> set (components r) \<and> is_global k}"
    then obtain k v where kv: "x = (k, v)" "(k, v) \<in> set (components r)" "is_global k" by auto
    then have "k \<in> set (global_keys r)" by (force simp: global_keys_def)
    then obtain v' where v': "(k, v') \<in> set items" using i(2) by (metis (no_types, opaque_lifting) fst_conv imageE set_map surj_pair)
    then have "map_of (components r) k = Some v'" using i(3) by (auto simp: list_all_iff)
    moreover have "map_of (components r) k = Some v" using assms kv(2) by simp
    ultimately show "x \<in> set items" using v' kv by simp
  qed
  show ?thesis using i(1) s d e by blast
qed

theorem global_items_sorted_exact_witness:
  "distinct (map fst (components example_registry))
   \<and> (\<exists>items. global_items example_registry = Inr items
           \<and> sorted (map (\<lambda>(k, v). to_typename k) items)
           \<and> distinct (map fst items)
           \<and> set items =
               {(k, v). (k, v) \<in> set (components example_registry) \<and> is_global k})
   \<and> global_items example_registry =
       Inr [(GlobalComponentKey ''a'' ''ns'', example_descriptor),
            (GlobalComponentKey ''b'' ''ns'', example_descriptor)]"
proof -
  have h: "distinct (map fst (components example_registry))"
    by (simp add: example_registry_def)
  have e: "global_items example_registry =
       Inr [(GlobalComponentKey ''a'' ''ns'', example_descriptor),
            (GlobalComponentKey ''b'' ''ns'', example_descriptor)]"
    by code_simp
  show ?thesis using h e global_items_sorted_exact[OF h] by blast
qed

section \<open>Properties of the translators\<close>

lemma kwargs_TypeError:
  assumes "set (map fst kw) \<noteq> set RemoteComponentType_fields"
  shows "RemoteComponentType_kwargs (JObj kw) = Inl TypeError"
proof (cases "list_all (\<lambda>k. k \<in> set RemoteComponentType_fields) (map fst kw)")
  case False
  then show ?thesis by (simp add: RemoteComponentType_kwargs_def)
next
  case True
  then have sub: "set (map fst kw) \<subseteq> set RemoteComponentType_fields"
    by (auto simp: list_all_iff)
  with assms obtain f where f: "f \<in> set RemoteComponentType_fields" "f \<notin> set (map fst kw)"
    by blast
  then have n: "map_of kw f = None" by (simp add: map_of_eq_None_iff)
  from f(1) n show ?thesis
    by (auto simp: RemoteComponentType_kwargs_def RemoteComponentType_fields_def
        split: option.splits)
qed

lemma kwargs_ok:
  assumes "set (map fst kw) = set RemoteComponentType_fields"
  shows "\<exists>t. RemoteComponentType_kwargs (JObj kw) = Inr t
     \<and> map_of kw ''name'' = Some (name t) \<and> map_of kw ''package'' = Some (package t)
     \<and> map_of kw ''summary'' = Some (summary t)
     \<and> map_of kw ''description'' = Some (description t)
     \<and> map_of kw ''scaffold_params_schema'' = Some (scaffold_params_schema t)
     \<and> map_of kw ''component_params_schema'' = Some (component_params_schema t)"
proof -
  have a: "list_all (\<lambda>k. k \<in> set RemoteComponentType_fields) (map fst kw)"
    using assms by (simp add: list_all_iff)
  have d: "\<And>f. f \<in> set RemoteComponentType_fields \<Longrightarrow> \<exists>v. map_of kw f = Some v"
    using assms by (metis map_of_eq_None_iff not_Some_eq set_map)
  obtain v1 where v1: "map_of kw ''name'' = Some v1"
    using d[of "''name''"] by (auto simp: RemoteComponentType_fields_def)
  obtain v2 where v2: "map_of kw ''package'' = Some v2"
    using d[of "''package''"] by (auto simp: RemoteComponentType_fields_def)
  obtain v3 where v3: "map_of kw ''summary'' = Some v3"
    using d[of "''summary''"] by (auto simp: RemoteComponentType_fields_def)
  obtain v4 where v4: "map_of kw ''description'' = Some v4"
    using d[of "''description''"] by (auto simp: RemoteComponentType_fields_def)
  obtain v5 where v5: "map_of kw ''scaffold_params_schema'' = Some v5"
    using d[of "''scaffold_params_schema''"] by (auto simp: RemoteComponentType_fields_def)
  obtain v6 where v6: "map_of kw ''component_params_schema'' = Some v6"
    using d[of "''component_params_schema''"] by (auto simp: RemoteComponentType_fields_def)
  show ?thesis
    using a v1 v2 v3 v4 v5 v6 by (simp add: RemoteComponentType_kwargs_def)
qed

text \<open>
  Claim C9, as stated, fails: a metadata object with only \<^verbatim>\<open>name\<close> and \<^verbatim>\<open>package\<close>
  is rejected, because the dataclass gives none of its six fields a default.
\<close>

theorem required_fields_only_counterexample:
  "get_remote_type_mapping_from_raw_data
     (JObj [(''Foo@ns'', JObj [(''name'', JStr ''Foo''), (''package'', JStr ''p'')])]) = Inl TypeError
   \<and> get_local_type_mapping_from_raw_data
     (JObj [(''Foo@ns'', JObj [(''name'', JStr ''Foo''), (''package'', JStr ''p'')])]) ''/d'' = Inl TypeError"
  by (simp add: get_remote_type_mapping_from_raw_data_def get_local_type_mapping_from_raw_data_def
      RemoteComponentType_kwargs_def RemoteComponentType_fields_def)

lemma kwargs_well_formed:
  assumes "has_descriptor_fields md"
  shows "\<exists>t. RemoteComponentType_kwargs md = Inr t \<and> holds_metadata md t"
proof -
  from assms obtain kw where md: "md = JObj kw"
    and f: "set (map fst kw) = set RemoteComponentType_fields"
    by (cases md) (auto simp: has_descriptor_fields_def)
  from kwargs_ok[OF f] show ?thesis unfolding md by (simp add: holds_metadata_def)
qed

lemma kwargs_malformed:
  assumes "\<not> has_descriptor_fields md"
  shows "RemoteComponentType_kwargs md = Inl TypeError"
proof (cases md)
  case (JObj kw)
  then have "set (map fst kw) \<noteq> set RemoteComponentType_fields"
    using assms by (simp add: has_descriptor_fields_def)
  from kwargs_TypeError[OF this] show ?thesis using JObj by simp
qed (simp_all add: RemoteComponentType_kwargs_def)

lemma set_update_cases:
  "(a, b) \<in> set (AList.update k v al) \<Longrightarrow> (a, b) = (k, v) \<or> (a, b) \<in> set al"
  by (induction al) (auto split: if_splits)

lemma global_key_of_match:
  "COMPONENT_TYPE_REGEX_match tn \<noteq> None \<Longrightarrow> \<exists>k. GlobalComponentKey_from_typename tn = Inr k"
  by (auto simp: GlobalComponentKey_from_typename_def name_and_namespace_from_type_def)

lemma local_key_of_match:
  "COMPONENT_TYPE_REGEX_match tn \<noteq> None \<Longrightarrow> \<exists>k. LocalComponentKey_from_type tn d = Inr k"
  by (auto simp: LocalComponentKey_from_type_def name_and_namespace_from_type_def)

lemma remote_loop_well_formed:
  assumes "list_all (\<lambda>(tn, md). has_descriptor_fields md \<and> COMPONENT_TYPE_REGEX_match tn \<noteq> None) items"
  shows "\<exists>m. get_remote_type_mapping_loop items data = Inr m
     \<and> (\<forall>k. (k \<in> fst ` set m) =
           (k \<in> fst ` set data \<or> (\<exists>tn\<in>fst ` set items. GlobalComponentKey_from_typename tn = Inr k)))
     \<and> (\<forall>(k, t)\<in>set m. (k, t) \<in> set data \<or>
           (\<exists>(tn, md)\<in>set items. GlobalComponentKey_from_typename tn = Inr k \<and> holds_metadata md t))"
  using assms
proof (induction items arbitrary: data)
  case Nil
  show ?case by auto
next
  case (Cons a items)
  obtain tn md where a: "a = (tn, md)" by (cases a)
  from Cons.prems a have wf: "has_descriptor_fields md" and mt: "COMPONENT_TYPE_REGEX_match tn \<noteq> None"
    and rest: "list_all (\<lambda>(tn, md). has_descriptor_fields md \<and> COMPONENT_TYPE_REGEX_match tn \<noteq> None) items"
    by simp_all
  obtain t where t: "RemoteComponentType_kwargs md = Inr t" "holds_metadata md t"
    using kwargs_well_formed[OF wf] by blast
  obtain k where k: "GlobalComponentKey_from_typename tn = Inr k"
    using global_key_of_match[OF mt] by blast
  from Cons.IH[OF rest, of "AList.update k t data"] obtain m where
    m: "get_remote_type_mapping_loop items (AList.update k t data) = Inr m"
    and keys: "\<forall>k'. (k' \<in> fst ` set m) =
           (k' \<in> fst ` set (AList.update k t data)
            \<or> (\<exists>tn\<in>fst ` set items. GlobalComponentKey_from_typename tn = Inr k'))"
    and vals: "\<forall>(k', t')\<in>set m. (k', t') \<in> set (AList.update k t data) \<or>
           (\<exists>(tn, md)\<in>set items. GlobalComponentKey_from_typename tn = Inr k' \<and> holds_metadata md t')"
    by blast
  have r: "get_remote_type_mapping_loop (a # items) data = Inr m"
    using a t(1) k m by simp
  have keys': "\<forall>k'. (k' \<in> fst ` set m) =
           (k' \<in> fst ` set data
            \<or> (\<exists>tn\<in>fst ` set (a # items). GlobalComponentKey_from_typename tn = Inr k'))"
  proof
    fix k'
    have "(k' \<in> fst ` set (AList.update k t data)) = (k' = k \<or> k' \<in> fst ` set data)"
      by (simp add: dom_update)
    then show "(k' \<in> fst ` set m) =
           (k' \<in> fst ` set data
            \<or> (\<exists>tn\<in>fst ` set (a # items). GlobalComponentKey_from_typename tn = Inr k'))"
      using keys a k by auto
  qed
  have vals': "\<forall>(k', t')\<in>set m. (k', t') \<in> set data \<or>
           (\<exists>(tn, md)\<in>set (a # items). GlobalComponentKey_from_typename tn = Inr k' \<and> holds_metadata md t')"
  proof (intro ballI, clarify)
    fix k' t' assume mem: "(k', t') \<in> set m"
      and n: "\<not> (\<exists>(tn, md)\<in>set (a # items). GlobalComponentKey_from_typename tn = Inr k' \<and> holds_metadata md t')"
    from vals mem have "(k', t') \<in> set (AList.update k t data) \<or>
           (\<exists>(tn, md)\<in>set items. GlobalComponentKey_from_typename tn = Inr k' \<and> holds_metadata md t')"
      by blast
    then have "(k', t') \<in> set (AList.update k t data)" using n by auto
    from set_update_cases[OF this] show "(k', t') \<in> set data"
      using n a k t(2) by auto
  qed
  show ?case using r keys' vals' by blast
qed

lemma local_loop_well_formed:
  assumes "list_all (\<lambda>(tn, md). has_descriptor_fields md \<and> COMPONENT_TYPE_REGEX_match tn \<noteq> None) items"
  shows "\<exists>m. get_local_type_mapping_loop items d data = Inr m
     \<and> (\<forall>k. (k \<in> fst ` set m) =
           (k \<in> fst ` set data \<or> (\<exists>tn\<in>fst ` set items. LocalComponentKey_from_type tn d = Inr k)))
     \<and> (\<forall>(k, t)\<in>set m. (k, t) \<in> set data \<or>
           (\<exists>(tn, md)\<in>set items. LocalComponentKey_from_type tn d = Inr k \<and> holds_metadata md t))"
  using assms
proof (induction items arbitrary: data)
  case Nil
  show ?case by auto
next
  case (Cons a items)
  obtain tn md where a: "a = (tn, md)" by (cases a)
  from Cons.prems a have wf: "has_descriptor_fields md" and mt: "COMPONENT_TYPE_REGEX_match tn \<noteq> None"
    and rest: "list_all (\<lambda>(tn, md). has_descriptor_fields md \<and> COMPONENT_TYPE_REGEX_match tn \<noteq> None) items"
    by simp_all
  obtain t where t: "RemoteComponentType_kwargs md = Inr t" "holds_metadata md t"
    using kwargs_well_formed[OF wf] by blast
  obtain k where k: "LocalComponentKey_from_type tn d = Inr k"
    using local_key_of_match[OF mt, of d] by blast
  from Cons.IH[OF rest, of "AList.update k t data"] obtain m where
    m: "get_local_type_mapping_loop items d (AList.update k t data) = Inr m"
    and keys: "\<forall>k'. (k' \<in> fst ` set m) =
           (k' \<in> fst ` set (AList.update k t data)
            \<or> (\<exists>tn\<in>fst ` set items. LocalComponentKey_from_type tn d = Inr k'))"
    and vals: "\<forall>(k', t')\<in>set m. (k', t') \<in> set (AList.update k t data) \<or>
           (\<exists>(tn, md)\<in>set items. LocalComponentKey_from_type tn d = Inr k' \<and> holds_metadata md t')"
    by blast
  have r: "get_local_type_mapping_loop (a # items) d data = Inr m"
    using a t(1) k m by simp
  have keys': "\<forall>k'. (k' \<in> fst ` set m) =
           (k' \<in> fst ` set data
            \<or> (\<exists>tn\<in>fst ` set (a # items). LocalComponentKey_from_type tn d = Inr k'))"
  proof
    fix k'
    have "(k' \<in> fst ` set (AList.update k t data)) = (k' = k \<or> k' \<in> fst ` set data)"
      by (simp add: dom_update)
    then show "(k' \<in> fst ` set m) =
           (k' \<in> fst ` set data
            \<or> (\<exists>tn\<in>fst ` set (a # items). LocalComponentKey_from_type tn d = Inr k'))"
      using keys a k by auto
  qed
  have vals': "\<forall>(k', t')\<in>set m. (k', t') \<in> set data \<or>
           (\<exists>(tn, md)\<in>set (a # items). LocalComponentKey_from_type tn d = Inr k' \<and> holds_metadata md t')"
  proof (intro ballI, clarify)
    fix k' t' assume mem: "(k', t') \<in> set m"
      and n: "\<not> (\<exists>(tn, md)\<in>set (a # items). LocalComponentKey_from_type tn d = Inr k' \<and> holds_metadata md t')"
    from vals mem have "(k', t') \<in> set (AList.update k t data) \<or>
           (\<exists>(tn, md)\<in>set items. LocalComponentKey_from_type tn d = Inr k' \<and> holds_metadata md t')"
      by blast
    then have "(k', t') \<in> set (AList.update k t data)" using n by auto
    from set_update_cases[OF this] show "(k', t') \<in> set data"
      using n a k t(2) by auto
  qed
  show ?case using r keys' vals' by blast
qed


lemma remote_loop_malformed:
  assumes "list_ex (\<lambda>(tn, md). \<not> has_descriptor_fields md) items"
  shows "(\<exists>e. get_remote_type_mapping_loop items data = Inl e)
     \<and> (list_all (\<lambda>(tn, md). COMPONENT_TYPE_REGEX_match tn \<noteq> None) items \<longrightarrow>
          get_remote_type_mapping_loop items data = Inl TypeError)"
  using assms
proof (induction items arbitrary: data)
  case Nil
  then show ?case by simp
next
  case (Cons a items)
  obtain tn md where a: "a = (tn, md)" by (cases a)
  show ?case
  proof (cases "has_descriptor_fields md")
    case False
    from kwargs_malformed[OF this] show ?thesis using a by simp
  next
    case True
    then obtain t where t: "RemoteComponentType_kwargs md = Inr t"
      using kwargs_well_formed by blast
    from True Cons.prems a have rest: "list_ex (\<lambda>(tn, md). \<not> has_descriptor_fields md) items"
      by simp
    show ?thesis
    proof (cases "GlobalComponentKey_from_typename tn")
      case (Inl e)
      then have "COMPONENT_TYPE_REGEX_match tn = None"
        using global_key_of_match[of tn] by (cases "COMPONENT_TYPE_REGEX_match tn") auto
      then show ?thesis using a t Inl by simp
    next
      case (Inr k)
      from Cons.IH[OF rest, of "AList.update k t data"] show ?thesis using a t Inr by simp
    qed
  qed
qed

lemma local_loop_malformed:
  assumes "list_ex (\<lambda>(tn, md). \<not> has_descriptor_fields md) items"
  shows "(\<exists>e. get_local_type_mapping_loop items d data = Inl e)
     \<and> (list_all (\<lambda>(tn, md). COMPONENT_TYPE_REGEX_match tn \<noteq> None) items \<longrightarrow>
          get_local_type_mapping_loop items d data = Inl TypeError)"
  using assms
proof (induction items arbitrary: data)
  case Nil
  then show ?case by simp
next
  case (Cons a items)
  obtain tn md where a: "a = (tn, md)" by (cases a)
  show ?case
  proof (cases "has_descriptor_fields md")
    case False
    from kwargs_malformed[OF this] show ?thesis using a by simp
  next
    case True
    then obtain t where t: "RemoteComponentType_kwargs md = Inr t"
      using kwargs_well_formed by blast
    from True Cons.prems a have rest: "list_ex (\<lambda>(tn, md). \<not> has_descriptor_fields md) items"
      by simp
    show ?thesis
    proof (cases "LocalComponentKey_from_type tn d")
      case (Inl e)
      then have "COMPONENT_TYPE_REGEX_match tn = None"
        using local_key_of_match[of tn d] by (cases "COMPONENT_TYPE_REGEX_match tn") auto
      then show ?thesis using a t Inl by simp
    next
      case (Inr k)
      from Cons.IH[OF rest, of "AList.update k t data"] show ?thesis using a t Inr by simp
    qed
  qed
qed

lemma remote_loop_distinct:
  "get_remote_type_mapping_loop items data = Inr m \<Longrightarrow> distinct (map fst data) \<Longrightarrow>
   distinct (map fst m)"
proof (induction items arbitrary: data)
  case Nil
  then show ?case by simp
next
  case (Cons a items)
  obtain tn md where a: "a = (tn, md)" by (cases a)
  from Cons.prems(1) obtain v k where
    r: "get_remote_type_mapping_loop items (AList.update k v data) = Inr m"
    unfolding a by (auto split: sum.splits)
  have "distinct (map fst (AList.update k v data))"
    using Cons.prems(2) by (rule distinct_update)
  from Cons.IH[OF r this] show ?case .
qed

lemma local_loop_distinct:
  "get_local_type_mapping_loop items d data = Inr m \<Longrightarrow> distinct (map fst data) \<Longrightarrow>
   distinct (map fst m)"
proof (induction items arbitrary: data)
  case Nil
  then show ?case by simp
next
  case (Cons a items)
  obtain tn md where a: "a = (tn, md)" by (cases a)
  from Cons.prems(1) obtain v k where
    r: "get_local_type_mapping_loop items d (AList.update k v data) = Inr m"
    unfolding a by (auto split: sum.splits)
  have "distinct (map fst (AList.update k v data))"
    using Cons.prems(2) by (rule distinct_update)
  from Cons.IH[OF r this] show ?case .
qed

text \<open>
  Claim C9, amended. For every raw mapping and both translators: when every typename of
  the mapping matches the pattern \<^verbatim>\<open>name@namespace\<close> and every metadata value is an
  object whose fields are exactly the six fields of the descriptor, the translator
  succeeds, its result names no key twice, the keys of the result are exactly the keys of
  the typenames, and each
  descriptor of the result holds the six values, as given, of a metadata object listed
  under that key (a \<^verbatim>\<open>null\<close> value stays the absent value). When some metadata value
  of the mapping has an unknown field or lacks one of the six fields, the translator
  raises; the exception is \<^verbatim>\<open>TypeError\<close> when every typename matches the pattern
  (an invalid typename in an earlier entry raises its \<^verbatim>\<open>ValueError\<close> first).
\<close>

theorem translators_need_all_six_fields:
  "(list_all (\<lambda>(tn, md). has_descriptor_fields md \<and> COMPONENT_TYPE_REGEX_match tn \<noteq> None) items
      \<longrightarrow>
      (\<exists>m. get_remote_type_mapping_from_raw_data (JObj items) = Inr m
         \<and> distinct (map fst m)
         \<and> (\<forall>k. (k \<in> fst ` set m) =
               (\<exists>tn\<in>fst ` set items. GlobalComponentKey_from_typename tn = Inr k))
         \<and> (\<forall>(k, t)\<in>set m. \<exists>(tn, md)\<in>set items.
               GlobalComponentKey_from_typename tn = Inr k \<and> holds_metadata md t))
      \<and> (\<exists>m. get_local_type_mapping_from_raw_data (JObj items) d = Inr m
         \<and> distinct (map fst m)
         \<and> (\<forall>k. (k \<in> fst ` set m) =
               (\<exists>tn\<in>fst ` set items. LocalComponentKey_from_type tn d = Inr k))
         \<and> (\<forall>(k, t)\<in>set m. \<exists>(tn, md)\<in>set items.
               LocalComponentKey_from_type tn d = Inr k \<and> holds_metadata md t)))
   \<and> (list_ex (\<lambda>(tn, md). \<not> has_descriptor_fields md) items \<longrightarrow>
        (\<exists>e. get_remote_type_mapping_from_raw_data (JObj items) = Inl e)
      \<and> (\<exists>e. get_local_type_mapping_from_raw_data (JObj items) d = Inl e)
      \<and> (list_all (\<lambda>(tn, md). COMPONENT_TYPE_REGEX_match tn \<noteq> None) items \<longrightarrow>
            get_remote_type_mapping_from_raw_data (JObj items) = Inl TypeError
          \<and> get_local_type_mapping_from_raw_data (JObj items) d = Inl TypeError))"
proof (intro conjI impI)
  assume wf: "list_all (\<lambda>(tn, md). has_descriptor_fields md \<and> COMPONENT_TYPE_REGEX_match tn \<noteq> None) items"
  from remote_loop_well_formed[OF wf, of "[]"] obtain m where
    m: "get_remote_type_mapping_loop items [] = Inr m"
    and mk: "\<forall>k. (k \<in> fst ` set m) =
               (\<exists>tn\<in>fst ` set items. GlobalComponentKey_from_typename tn = Inr k)"
    and mv: "\<forall>(k, t)\<in>set m. \<exists>(tn, md)\<in>set items.
               GlobalComponentKey_from_typename tn = Inr k \<and> holds_metadata md t"
    by auto
  have md: "distinct (map fst m)" using remote_loop_distinct[OF m] by simp
  show "\<exists>m. get_remote_type_mapping_from_raw_data (JObj items) = Inr m
         \<and> distinct (map fst m)
         \<and> (\<forall>k. (k \<in> fst ` set m) =
               (\<exists>tn\<in>fst ` set items. GlobalComponentKey_from_typename tn = Inr k))
         \<and> (\<forall>(k, t)\<in>set m. \<exists>(tn, md)\<in>set items.
               GlobalComponentKey_from_typename tn = Inr k \<and> holds_metadata md t)"
    using m md mk mv
    by (intro exI[of _ m] conjI) (simp_all add: get_remote_type_mapping_from_raw_data_def)
  from local_loop_well_formed[OF wf, of d "[]"] obtain l where
    l: "get_local_type_mapping_loop items d [] = Inr l"
    and lk: "\<forall>k. (k \<in> fst ` set l) =
               (\<exists>tn\<in>fst ` set items. LocalComponentKey_from_type tn d = Inr k)"
    and lv: "\<forall>(k, t)\<in>set l. \<exists>(tn, md)\<in>set items.
               LocalComponentKey_from_type tn d = Inr k \<and> holds_metadata md t"
    by auto
  have ld: "distinct (map fst l)" using local_loop_distinct[OF l] by simp
  show "\<exists>m. get_local_type_mapping_from_raw_data (JObj items) d = Inr m
         \<and> distinct (map fst m)
         \<and> (\<forall>k. (k \<in> fst ` set m) =
               (\<exists>tn\<in>fst ` set items. LocalComponentKey_from_type tn d = Inr k))
         \<and> (\<forall>(k, t)\<in>set m. \<exists>(tn, md)\<in>set items.
               LocalComponentKey_from_type tn d = Inr k \<and> holds_metadata md t)"
    using l ld lk lv
    by (intro exI[of _ l] conjI) (simp_all add: get_local_type_mapping_from_raw_data_def)
next
  assume bad: "list_ex (\<lambda>(tn, md). \<not> has_descriptor_fields md) items"
  from remote_loop_malformed[OF bad, of "[]"]
  show "\<exists>e. get_remote_type_mapping_from_raw_data (JObj items) = Inl e"
    by (simp add: get_remote_type_mapping_from_raw_data_def)
  from local_loop_malformed[OF bad, of d "[]"]
  show "\<exists>e. get_local_type_mapping_from_raw_data (JObj items) d = Inl e"
    by (simp add: get_local_type_mapping_from_raw_data_def)
next
  assume bad: "list_ex (\<lambda>(tn, md). \<not> has_descriptor_fields md) items"
    and tn: "list_all (\<lambda>(tn, md). COMPONENT_TYPE_REGEX_match tn \<noteq> None) items"
  from remote_loop_malformed[OF bad, of "[]"] tn
  show "get_remote_type_mapping_from_raw_data (JObj items) = Inl TypeError"
    by (simp add: get_remote_type_mapping_from_raw_data_def)
next
  assume bad: "list_ex (\<lambda>(tn, md). \<not> has_descriptor_fields md) items"
    and tn: "list_all (\<lambda>(tn, md). COMPONENT_TYPE_REGEX_match tn \<noteq> None) items"
  from local_loop_malformed[OF bad, of d "[]"] tn
  show "get_local_type_mapping_from_raw_data (JObj items) d = Inl TypeError"
    by (simp add: get_local_type_mapping_from_raw_data_def)
qed

lemma example_metadata_fields: "has_descriptor_fields example_metadata"
  by (simp add: has_descriptor_fields_def example_metadata_def RemoteComponentType_fields_def)

lemma two_fields_malformed:
  "\<not> has_descriptor_fields (JObj [(''name'', JStr ''Bar''), (''package'', JStr ''p'')])"
proof -
  have "''summary'' \<in> set RemoteComponentType_fields"
    by (simp add: RemoteComponentType_fields_def)
  moreover have
    "''summary'' \<notin> set (map fst [(''name'', JStr ''Bar''), (''package'', JStr ''p'')])"
    by simp
  ultimately have
    "set (map fst [(''name'', JStr ''Bar''), (''package'', JStr ''p'')]) \<noteq>
     set RemoteComponentType_fields"
    by blast
  then show ?thesis unfolding has_descriptor_fields_def json.case by blast
qed

theorem translators_need_all_six_fields_witness:
  "list_all (\<lambda>(tn, md). has_descriptor_fields md \<and> COMPONENT_TYPE_REGEX_match tn \<noteq> None)
     [(''Foo@ns'', example_metadata), (''Bar@ns'', example_metadata)]
   \<and> (\<exists>m. get_remote_type_mapping_from_raw_data
              (JObj [(''Foo@ns'', example_metadata), (''Bar@ns'', example_metadata)]) = Inr m
         \<and> (\<forall>k. (k \<in> fst ` set m) =
               (\<exists>tn\<in>fst ` set [(''Foo@ns'', example_metadata), (''Bar@ns'', example_metadata)].
                   GlobalComponentKey_from_typename tn = Inr k)))
   \<and> get_remote_type_mapping_from_raw_data
        (JObj [(''Foo@ns'', example_metadata), (''Bar@ns'', example_metadata)]) =
       Inr [(GlobalComponentKey ''Foo'' ''ns'', example_descriptor),
            (GlobalComponentKey ''Bar'' ''ns'', example_descriptor)]
   \<and> list_ex (\<lambda>(tn, md). \<not> has_descriptor_fields md)
        [(''Foo@ns'', example_metadata),
         (''Bar@ns'', JObj [(''name'', JStr ''Bar''), (''package'', JStr ''p'')])]
   \<and> list_all (\<lambda>(tn, md). COMPONENT_TYPE_REGEX_match tn \<noteq> None)
        [(''Foo@ns'', example_metadata),
         (''Bar@ns'', JObj [(''name'', JStr ''Bar''), (''package'', JStr ''p'')])]
   \<and> get_remote_type_mapping_from_raw_data
        (JObj [(''Foo@ns'', example_metadata),
               (''Bar@ns'', JObj [(''name'', JStr ''Bar''), (''package'', JStr ''p'')])]) =
       Inl TypeError
   \<and> get_local_type_mapping_from_raw_data
        (JObj [(''Foo@ns'', example_metadata),
               (''Bar@ns'', JObj [(''name'', JStr ''Bar''), (''package'', JStr ''p'')])]) ''/d'' =
       Inl TypeError"
proof -
  let ?good = "[(''Foo@ns'', example_metadata), (''Bar@ns'', example_metadata)]"
  let ?bad = "[(''Foo@ns'', example_metadata),
         (''Bar@ns'', JObj [(''name'', JStr ''Bar''), (''package'', JStr ''p'')])]"
  have m1: "COMPONENT_TYPE_REGEX_match ''Foo@ns'' = Some (''Foo'', ''ns'')"
    by (simp add: key_eval)
  have m2: "COMPONENT_TYPE_REGEX_match ''Bar@ns'' = Some (''Bar'', ''ns'')"
    by (simp add: key_eval)
  have h1: "list_all (\<lambda>(tn, md). has_descriptor_fields md \<and> COMPONENT_TYPE_REGEX_match tn \<noteq> None)
     ?good"
    using example_metadata_fields m1 m2 by simp
  have h2: "list_ex (\<lambda>(tn, md). \<not> has_descriptor_fields md) ?bad"
    using two_fields_malformed by simp
  have h3: "list_all (\<lambda>(tn, md). COMPONENT_TYPE_REGEX_match tn \<noteq> None) ?bad"
    using m1 m2 by simp
  have e: "get_remote_type_mapping_from_raw_data (JObj ?good) =
       Inr [(GlobalComponentKey ''Foo'' ''ns'', example_descriptor),
            (GlobalComponentKey ''Bar'' ''ns'', example_descriptor)]"
    by code_simp
  note good = translators_need_all_six_fields[of ?good "''/d''", THEN conjunct1, THEN mp, OF h1,
      THEN conjunct1]
  then obtain m where m: "get_remote_type_mapping_from_raw_data (JObj ?good) = Inr m"
    "distinct (map fst m)"
    "\<forall>k. (k \<in> fst ` set m) =
               (\<exists>tn\<in>fst ` set ?good. GlobalComponentKey_from_typename tn = Inr k)"
    by (elim exE conjE)
  have g: "\<exists>m. get_remote_type_mapping_from_raw_data (JObj ?good) = Inr m
         \<and> (\<forall>k. (k \<in> fst ` set m) =
               (\<exists>tn\<in>fst ` set ?good. GlobalComponentKey_from_typename tn = Inr k))"
    using m(1,3) by (intro exI[of _ m] conjI)
  note b = translators_need_all_six_fields[of ?bad "''/d''", THEN conjunct2, THEN mp, OF h2,
      THEN conjunct2, THEN conjunct2, THEN mp, OF h3]
  note b1 = conjunct1[OF b] and b2 = conjunct2[OF b]
  show ?thesis by (intro conjI; fact)
qed

section \<open>Properties of the construction\<close>

lemma raw_registry_data_hit:
  assumes "has_cache ctx" "cache s (get_cache_key ctx ''component_registry_data'') = Some v"
    "v \<noteq> []"
  shows "raw_registry_data_of rt ctx s = (Inr v, s)"
  using assms by (simp add: raw_registry_data_of_def cache_get_def)

lemma cache_write_loop_commands:
  "cache_write_loop rt ctx j ps s = (r, s') \<Longrightarrow> commands s' = commands s"
proof (induction ps arbitrary: s)
  case Nil
  then show ?case by simp
next
  case (Cons p ps)
  then show ?case
    by (auto simp: Let_def cache_set_def split: sum.splits if_splits)
qed

lemma fetch_commands:
  assumes "fetch_local_component_types rt ctx data ptf s = (r, s')"
  shows "commands s' = commands s
   \<or> commands s' = commands s @ [''list'' # ''local-component-types'' # set_order rt ptf]"
proof (cases "ptf = []")
  case True
  then show ?thesis using assms by (simp add: fetch_local_component_types_def)
next
  case False
  show ?thesis
    using False assms cache_write_loop_commands[of rt ctx _ "set_order rt ptf"]
    by (fastforce simp: fetch_local_component_types_def Let_def run_command_def
        split: sum.splits option.splits prod.splits if_splits)
qed

lemma retrieve_commands:
  assumes "retrieve_local_component_types rt ctx paths s = (r, s')"
  shows "\<exists>new. commands s' = commands s @ new \<and> [''list'', ''component-types''] \<notin> set new"
proof -
  have "s' = s \<or> (\<exists>data ptf. fetch_local_component_types rt ctx data ptf s = (r, s'))"
    using assms
    by (auto simp: retrieve_local_component_types_def split: sum.splits prod.splits if_splits)
  then show ?thesis
  proof
    assume "s' = s" then show ?thesis by simp
  next
    assume "\<exists>data ptf. fetch_local_component_types rt ctx data ptf s = (r, s')"
    then obtain data ptf where "fetch_local_component_types rt ctx data ptf s = (r, s')" by blast
    from fetch_commands[OF this] show ?thesis by auto
  qed
qed

text \<open>
  Claim C7. When the cache is available and holds a non-empty entry under the key of the
  global scope, the construction, whether it returns or raises, makes no call
  \<^verbatim>\<open>list component-types\<close> to the external process: the calls it adds to those made
  before contain none. (That the entry parses is not needed for this.)
\<close>

theorem global_cache_hit_no_listing_call:
  assumes "has_cache ctx"
    and "cache s (get_cache_key ctx ''component_registry_data'') = Some v"
    and "v \<noteq> []"
  shows "\<exists>new. commands (snd (from_dg_context rt ctx dirs s)) = commands s @ new
           \<and> [''list'', ''component-types''] \<notin> set new"
proof -
  define s0 where "s0 = (if use_dg_managed_environment ctx then ensure_uv_lock s else s)"
  have c0: "cache s0 = cache s" "commands s0 = commands s"
    by (simp_all add: s0_def ensure_uv_lock_def)
  have hit: "raw_registry_data_of rt ctx s0 = (Inr v, s0)"
    using raw_registry_data_hit[of ctx s0 v rt] assms c0 by simp
  obtain r s' where res: "from_dg_context rt ctx dirs s = (r, s')" by (cases "from_dg_context rt ctx dirs s")
  have "s' = s0 \<or> (\<exists>paths r'. retrieve_local_component_types rt ctx paths s0 = (r', s'))"
    using res hit unfolding from_dg_context_def s0_def[symmetric] Let_def
    by (auto split: option.splits sum.splits prod.splits if_splits)
  then show ?thesis
  proof
    assume "s' = s0" then show ?thesis using res c0 by simp
  next
    assume "\<exists>paths r'. retrieve_local_component_types rt ctx paths s0 = (r', s')"
    then obtain paths r' where "retrieve_local_component_types rt ctx paths s0 = (r', s')" by blast
    from retrieve_commands[OF this] show ?thesis using res c0 by simp
  qed
qed

theorem global_cache_hit_no_listing_call_witness:
  "has_cache example_context
   \<and> cache example_state (get_cache_key example_context ''component_registry_data'') =
       Some example_listing_text
   \<and> example_listing_text \<noteq> []
   \<and> (\<exists>new. commands (snd (from_dg_context example_runtime example_context
                  (Some [''/a'', ''/e'']) example_state)) = commands example_state @ new
          \<and> [''list'', ''component-types''] \<notin> set new)
   \<and> commands (snd (from_dg_context example_runtime example_context
                  (Some [''/a'', ''/e'']) example_state)) =
       [[''list'', ''local-component-types'', ''/e'']]"
proof -
  have h1: "has_cache example_context" by (simp add: example_context_def)
  have h2: "cache example_state (get_cache_key example_context ''component_registry_data'') =
       Some example_listing_text"
    by (simp add: example_context_def example_state_def)
  have h3: "example_listing_text \<noteq> []" by (simp add: example_listing_text_def)
  have c: "commands (snd (from_dg_context example_runtime example_context
                  (Some [''/a'', ''/e'']) example_state)) =
       [[''list'', ''local-component-types'', ''/e'']]"
    by code_simp
  show ?thesis
    using h1 h2 h3 c
      global_cache_hit_no_listing_call[OF h1 h2 h3, of example_runtime "Some [''/a'', ''/e'']"]
    by blast
qed

subsection \<open>The loop over the cached directories\<close>

lemma cached_paths_loop_valid_absent:
  assumes "cached_entry_valid rt ctx s p" "p \<in> set paths" "p \<notin> set ptf"
  shows "\<exists>e. cached_paths_loop rt ctx s paths data ptf = Inl e"
  using assms(2,3)
proof (induction paths arbitrary: data ptf)
  case Nil
  then show ?case by simp
next
  case (Cons q paths)
  show ?case
  proof (cases "q = p")
    case True
    then show ?thesis using assms(1) Cons.prems(2)
      by (auto simp: cached_entry_valid_def split: option.splits sum.splits)
  next
    case False
    then have "p \<in> set paths" using Cons.prems(1) by simp
    note ih = Cons.IH[OF this]
    have r: "p \<notin> set (removeAll q ptf)" using Cons.prems(2) by simp
    show ?thesis
      using ih[OF Cons.prems(2)] ih[OF r]
      by (auto split: option.splits sum.splits)
  qed
qed

lemma cached_paths_loop_duplicate:
  assumes "cached_entry_valid rt ctx s p" "Suc 0 < count_list paths p"
  shows "\<exists>e. cached_paths_loop rt ctx s paths data ptf = Inl e"
  using assms(2)
proof (induction paths arbitrary: data ptf)
  case Nil
  then show ?case by simp
next
  case (Cons q paths)
  show ?case
  proof (cases "q = p")
    case True
    then have "0 < count_list paths p" using Cons.prems by simp
    then have mem: "p \<in> set paths" using count_list_0_iff[of paths p] by auto
    have "p \<notin> set (removeAll p ptf)" by simp
    from cached_paths_loop_valid_absent[OF assms(1) mem this]
    show ?thesis using True assms(1)
      by (auto simp: cached_entry_valid_def split: option.splits sum.splits)
  next
    case False
    then have "Suc 0 < count_list paths p" using Cons.prems by simp
    note ih = Cons.IH[OF this]
    show ?thesis using ih by (auto split: option.splits sum.splits)
  qed
qed

lemma cached_paths_loop_error_kind:
  assumes "list_all (cached_entry_ok rt ctx s) paths"
    and "cached_paths_loop rt ctx s paths data ptf = Inl e"
  shows "\<exists>q. q \<in> set paths \<and> e = KeyError_path q"
  using assms
proof (induction paths arbitrary: data ptf)
  case Nil
  then show ?case by simp
next
  case (Cons q paths)
  have ok: "cached_entry_ok rt ctx s q" and rest: "list_all (cached_entry_ok rt ctx s) paths"
    using Cons.prems(1) by simp_all
  note ih = Cons.IH[OF rest]
  show ?case
  proof (cases "cache_get s (get_cache_key_for_local_components ctx q)")
    case None
    then have "cached_paths_loop rt ctx s paths data ptf = Inl e" using Cons.prems(2) by simp
    from ih[OF this] show ?thesis by auto
  next
    case (Some v)
    show ?thesis
    proof (cases "v = []")
      case True
      then have "cached_paths_loop rt ctx s paths data ptf = Inl e"
        using Cons.prems(2) Some by simp
      from ih[OF this] show ?thesis by auto
    next
      case False
      then have "cached_entry_valid rt ctx s q" using ok Some by (simp add: cached_entry_ok_def)
      then obtain j m where j: "json_loads rt v = Some j"
        and m: "get_local_type_mapping_from_raw_data j q = Inr m"
        using Some by (auto simp: cached_entry_valid_def split: option.splits sum.splits)
      show ?thesis
      proof (cases "q \<in> set ptf")
        case True
        then have "cached_paths_loop rt ctx s paths (dict_update data m) (removeAll q ptf) = Inl e"
          using Cons.prems(2) Some False j m by simp
        from ih[OF this] show ?thesis by auto
      next
        case nin: False
        then have "e = KeyError_path q" using Cons.prems(2) Some False j m by simp
        then show ?thesis by simp
      qed
    qed
  qed
qed

lemma raw_registry_keeps_entry:
  assumes "raw_registry_data_of rt ctx s = (x, s1)" "cache s k = Some v" "v \<noteq> []"
  shows "cache s1 k = Some v"
proof (cases "has_cache ctx")
  case False
  then show ?thesis using assms
    by (auto simp: raw_registry_data_of_def Let_def run_command_def
        split: sum.splits prod.splits)
next
  case True
  let ?gk = "get_cache_key ctx ''component_registry_data''"
  show ?thesis
  proof (cases "?gk = k")
    case same: True
    then have "raw_registry_data_of rt ctx s = (Inr v, s)"
      using True assms(2,3) by (simp add: raw_registry_data_of_def cache_get_def)
    then show ?thesis using assms by simp
  next
    case diff: False
    show ?thesis using assms True diff
      by (auto simp: raw_registry_data_of_def Let_def run_command_def cache_set_def
          cache_get_def split: sum.splits prod.splits option.splits if_splits)
  qed
qed

lemma cached_entry_valid_cache:
  "cache s' (get_cache_key_for_local_components ctx p) =
     cache s (get_cache_key_for_local_components ctx p) \<Longrightarrow>
   cached_entry_valid rt ctx s' p = cached_entry_valid rt ctx s p"
  by (simp add: cached_entry_valid_def cache_get_def)

lemma cached_entry_ok_cache:
  "cache s' (get_cache_key_for_local_components ctx p) =
     cache s (get_cache_key_for_local_components ctx p) \<Longrightarrow>
   cached_entry_ok rt ctx s' p = cached_entry_ok rt ctx s p"
  using cached_entry_valid_cache[of s' ctx p s rt]
  by (auto simp: cached_entry_ok_def cache_get_def split: option.splits)

lemma raw_registry_keeps_valid:
  assumes "raw_registry_data_of rt ctx s = (x, s1)" "cached_entry_valid rt ctx s p"
  shows "cached_entry_valid rt ctx s1 p"
proof -
  from assms(2) obtain v where v: "cache s (get_cache_key_for_local_components ctx p) = Some v"
    "v \<noteq> []"
    by (auto simp: cached_entry_valid_def cache_get_def split: option.splits)
  from raw_registry_keeps_entry[OF assms(1) v]
  have "cache s1 (get_cache_key_for_local_components ctx p) =
        cache s (get_cache_key_for_local_components ctx p)" using v by simp
  from cached_entry_valid_cache[OF this] assms(2) show ?thesis by simp
qed

lemma remote_loop_ok_local_loop_ok:
  "get_remote_type_mapping_loop items d = Inr m \<Longrightarrow>
   \<exists>m'. get_local_type_mapping_loop items q d' = Inr m'"
proof (induction items arbitrary: d d')
  case Nil
  show ?case by simp
next
  case (Cons a items)
  obtain tn md where a: "a = (tn, md)" by (cases a)
  from Cons.prems obtain v k where v: "RemoteComponentType_kwargs md = Inr v"
    and k: "GlobalComponentKey_from_typename tn = Inr k"
    and r: "get_remote_type_mapping_loop items (AList.update k v d) = Inr m"
    unfolding a by (auto split: sum.splits)
  from k obtain n ns where "name_and_namespace_from_type tn = Inr (n, ns)"
    by (auto simp: GlobalComponentKey_from_typename_def split: sum.splits)
  then have l: "LocalComponentKey_from_type tn q = Inr (LocalComponentKey n ns q)"
    by (simp add: LocalComponentKey_from_type_def)
  from Cons.IH[OF r, of "AList.update (LocalComponentKey n ns q) v d'"]
  show ?case unfolding a using v l by simp
qed

lemma remote_ok_local_ok:
  "get_remote_type_mapping_from_raw_data j = Inr m \<Longrightarrow>
   \<exists>m'. get_local_type_mapping_from_raw_data j q = Inr m'"
  using remote_loop_ok_local_loop_ok
  by (cases j)
    (auto simp: get_remote_type_mapping_from_raw_data_def get_local_type_mapping_from_raw_data_def)

lemma raw_registry_cache_cases:
  assumes "raw_registry_data_of rt ctx s = (Inr r, s1)"
  shows "cache s1 k = cache s k \<or> (cache s1 k = Some r \<and> (cache s k = None \<or> cache s k = Some []))"
  using assms
  by (auto simp: raw_registry_data_of_def Let_def run_command_def cache_set_def
      cache_get_def split: sum.splits prod.splits option.splits if_splits)

lemma raw_registry_keeps_ok:
  assumes "raw_registry_data_of rt ctx s = (Inr r, s1)" "json_loads rt r = Some j"
    "get_remote_type_mapping_from_raw_data j = Inr m" "cached_entry_ok rt ctx s q"
  shows "cached_entry_ok rt ctx s1 q"
proof -
  let ?k = "get_cache_key_for_local_components ctx q"
  from raw_registry_cache_cases[OF assms(1), of ?k]
  show ?thesis
  proof
    assume "cache s1 ?k = cache s ?k"
    from cached_entry_ok_cache[OF this] assms(4) show ?thesis by simp
  next
    assume a: "cache s1 ?k = Some r \<and> (cache s ?k = None \<or> cache s ?k = Some [])"
    obtain m' where "get_local_type_mapping_from_raw_data j q = Inr m'"
      using remote_ok_local_ok[OF assms(3)] by blast
    then show ?thesis using a assms(2)
      by (simp add: cached_entry_ok_def cached_entry_valid_def cache_get_def)
  qed
qed

text \<open>
  Claim C10, as stated, fails: the exception need not be the \<^verbatim>\<open>KeyError\<close>. With the
  directories \<^verbatim>\<open>/x\<close>, \<^verbatim>\<open>/a\<close>, \<^verbatim>\<open>/a\<close>, a valid cached entry for \<^verbatim>\<open>/a\<close> and an
  entry for \<^verbatim>\<open>/x\<close> that does not parse, the loop raises \<^verbatim>\<open>JSONDecodeError\<close> at
  \<^verbatim>\<open>/x\<close>, before it reaches \<^verbatim>\<open>/a\<close> a second time.
\<close>

theorem duplicate_cached_directory_counterexample:
  "has_cache example_context
   \<and> cached_entry_valid example_runtime example_context example_mixed_state ''/a''
   \<and> Suc 0 < count_list [''/x'', ''/a'', ''/a''] ''/a''
   \<and> fst (from_dg_context example_runtime example_context (Some [''/x'', ''/a'', ''/a''])
        example_mixed_state) = Inl JSONDecodeError"
proof -
  have h1: "has_cache example_context" by (simp add: example_context_def)
  have h2: "cached_entry_valid example_runtime example_context example_mixed_state ''/a''"
    by code_simp
  have h3: "Suc 0 < count_list [''/x'', ''/a'', ''/a''] ''/a''" by simp
  have h4: "fst (from_dg_context example_runtime example_context (Some [''/x'', ''/a'', ''/a''])
        example_mixed_state) = Inl JSONDecodeError"
    by code_simp
  show ?thesis by (intro conjI; fact)
qed

text \<open>
  Claim C10, amended. When the cache is available, a directory occurs more than once in the
  sequence and its cached entry is valid, the construction returns no registry: it
  raises. If moreover the entry of every directory of the sequence is missing, empty or
  valid, the exception is the \<^verbatim>\<open>KeyError\<close> of \<^verbatim>\<open>paths_to_fetch.remove\<close> for one of
  the directories, unless the global listing fails first, with the exception that the
  construction without local directories raises.
\<close>

theorem duplicate_cached_directory_raises:
  assumes hc: "has_cache ctx"
    and valid: "cached_entry_valid rt ctx s p"
    and dup: "Suc 0 < count_list dirs p"
  shows "\<exists>e. fst (from_dg_context rt ctx (Some dirs) s) = Inl e
           \<and> (list_all (cached_entry_ok rt ctx s) dirs \<longrightarrow>
                (\<exists>q. q \<in> set dirs \<and> e = KeyError_path q)
                \<or> fst (from_dg_context rt ctx None s) = Inl e)"
proof -
  define s0 where "s0 = (if use_dg_managed_environment ctx then ensure_uv_lock s else s)"
  have c0: "cache s0 = cache s" by (simp add: s0_def ensure_uv_lock_def)
  have v0: "cached_entry_valid rt ctx s0 p"
    using cached_entry_valid_cache[of s0 ctx p s rt] c0 valid by simp
  have ok0: "list_all (cached_entry_ok rt ctx s) dirs \<Longrightarrow> list_all (cached_entry_ok rt ctx s0) dirs"
    using cached_entry_ok_cache[of s0 ctx _ s rt] c0 by (simp add: list_all_iff)
  have ne: "dirs \<noteq> []" using dup by auto
  obtain x s1 where g: "raw_registry_data_of rt ctx s0 = (x, s1)"
    by (cases "raw_registry_data_of rt ctx s0")
  have v1: "cached_entry_valid rt ctx s1 p" by (rule raw_registry_keeps_valid[OF g v0])
  show ?thesis
  proof (cases x)
    case (Inl e)
    then have "fst (from_dg_context rt ctx (Some dirs) s) = Inl e"
      "fst (from_dg_context rt ctx None s) = Inl e"
      using g unfolding from_dg_context_def s0_def[symmetric] Let_def by simp_all
    then show ?thesis by blast
  next
    case (Inr raw)
    show ?thesis
    proof (cases "json_loads rt raw")
      case None
      then have "fst (from_dg_context rt ctx (Some dirs) s) = Inl JSONDecodeError"
        "fst (from_dg_context rt ctx None s) = Inl JSONDecodeError"
        using g Inr unfolding from_dg_context_def s0_def[symmetric] Let_def by simp_all
      then show ?thesis by blast
    next
      case (Some j)
      show ?thesis
      proof (cases "get_remote_type_mapping_from_raw_data j")
        case e: (Inl e)
        then have "fst (from_dg_context rt ctx (Some dirs) s) = Inl e"
          "fst (from_dg_context rt ctx None s) = Inl e"
          using g Inr Some unfolding from_dg_context_def s0_def[symmetric] Let_def by simp_all
        then show ?thesis by blast
      next
        case m: (Inr m)
        from cached_paths_loop_duplicate[OF v1 dup, of "[]" "remdups dirs"]
        obtain e where e: "cached_paths_loop rt ctx s1 dirs [] (remdups dirs) = Inl e" by blast
        then have r: "retrieve_local_component_types rt ctx dirs s1 = (Inl e, s1)"
          using hc by (simp add: retrieve_local_component_types_def)
        have res: "fst (from_dg_context rt ctx (Some dirs) s) = Inl e"
          using g Inr Some m ne r unfolding from_dg_context_def s0_def[symmetric] Let_def
          by simp
        have "\<exists>q. q \<in> set dirs \<and> e = KeyError_path q"
          if a: "list_all (cached_entry_ok rt ctx s) dirs"
        proof -
          have "list_all (cached_entry_ok rt ctx s1) dirs"
            using ok0[OF a] raw_registry_keeps_ok[OF g[unfolded Inr] Some m]
            by (simp add: list_all_iff)
          from cached_paths_loop_error_kind[OF this e] show ?thesis .
        qed
        then show ?thesis using res by blast
      qed
    qed
  qed
qed

theorem duplicate_cached_directory_raises_witness:
  "has_cache example_context
   \<and> cached_entry_valid example_runtime example_context example_state ''/a''
   \<and> Suc 0 < count_list [''/a'', ''/a''] ''/a''
   \<and> list_all (cached_entry_ok example_runtime example_context example_state) [''/a'', ''/a'']
   \<and> fst (from_dg_context example_runtime example_context (Some [''/a'', ''/a''])
        example_state) = Inl (KeyError_path ''/a'')"
proof -
  have h1: "has_cache example_context" by (simp add: example_context_def)
  have h2: "cached_entry_valid example_runtime example_context example_state ''/a''"
    by code_simp
  have h3: "Suc 0 < count_list [''/a'', ''/a''] ''/a''" by simp
  have h4: "list_all (cached_entry_ok example_runtime example_context example_state)
              [''/a'', ''/a'']"
    by code_simp
  have g: "fst (from_dg_context example_runtime example_context None example_state) =
             Inr \<lparr>components = [(GlobalComponentKey ''Foo'' ''ns'', example_descriptor)]\<rparr>"
    by code_simp
  from duplicate_cached_directory_raises[OF h1 h2 h3] h4 obtain e where
    e: "fst (from_dg_context example_runtime example_context (Some [''/a'', ''/a''])
          example_state) = Inl e"
    and k: "(\<exists>q. q \<in> set [''/a'', ''/a''] \<and> e = KeyError_path q)
            \<or> fst (from_dg_context example_runtime example_context None example_state) = Inl e"
    by blast
  from k g have "e = KeyError_path ''/a''" by auto
  with e h1 h2 h3 h4 show ?thesis by simp
qed

subsection \<open>Cached entries that do not parse\<close>

lemma cached_paths_loop_corrupt_head:
  assumes "cache s (get_cache_key_for_local_components ctx p) = Some v" "v \<noteq> []"
    "json_loads rt v = None"
  shows "cached_paths_loop rt ctx s (p # paths) data ptf = Inl JSONDecodeError"
  using assms by (simp add: cache_get_def)

lemma cached_paths_loop_corrupt:
  assumes "cache s (get_cache_key_for_local_components ctx p) = Some v" "v \<noteq> []"
    "json_loads rt v = None" "p \<in> set paths"
  shows "\<exists>e. cached_paths_loop rt ctx s paths data ptf = Inl e"
  using assms(4)
proof (induction paths arbitrary: data ptf)
  case Nil
  then show ?case by simp
next
  case (Cons q paths)
  show ?case
  proof (cases "q = p")
    case True
    then show ?thesis using cached_paths_loop_corrupt_head[OF assms(1,2,3)] by simp
  next
    case False
    then have "p \<in> set paths" using Cons.prems by simp
    note ih = Cons.IH[OF this]
    show ?thesis using ih by (auto split: option.splits sum.splits)
  qed
qed

lemma raw_registry_commands:
  assumes "raw_registry_data_of rt ctx s = (x, s1)"
  shows "commands s1 = commands s \<or> commands s1 = commands s @ [[''list'', ''component-types'']]"
  using assms
  by (auto simp: raw_registry_data_of_def Let_def run_command_def cache_set_def
      split: sum.splits prod.splits option.splits if_splits)

text \<open>
  Claim C2, as stated, fails: with an entry under the global key that is not empty and
  does not parse, the construction raises \<^verbatim>\<open>JSONDecodeError\<close> and makes no call to the
  external process.
\<close>

theorem corrupt_cache_entry_counterexample:
  "has_cache example_context
   \<and> cache_get example_corrupt_state
        (get_cache_key example_context ''component_registry_data'') = Some ''<html>''
   \<and> json_loads example_runtime ''<html>'' = None
   \<and> fst (from_dg_context example_runtime example_context None example_corrupt_state) =
        Inl JSONDecodeError
   \<and> commands (snd (from_dg_context example_runtime example_context None
        example_corrupt_state)) = []"
proof -
  have h1: "has_cache example_context" by (simp add: example_context_def)
  have h2: "cache_get example_corrupt_state
        (get_cache_key example_context ''component_registry_data'') = Some ''<html>''"
    by (simp add: cache_get_def example_context_def example_corrupt_state_def)
  have h3: "json_loads example_runtime ''<html>'' = None" by code_simp
  have h4: "fst (from_dg_context example_runtime example_context None example_corrupt_state) =
        Inl JSONDecodeError"
    by code_simp
  have h5: "commands (snd (from_dg_context example_runtime example_context None
        example_corrupt_state)) = []"
    by code_simp
  show ?thesis by (intro conjI; fact)
qed

text \<open>
  Claim C2, amended. When the cache is available and holds, under the key of a scope, a
  non-empty string that does not parse: for the global scope the construction raises
  \<^verbatim>\<open>JSONDecodeError\<close> and leaves the world as it was but for the dependency lock (no
  call to the external process, no cache write); for the scope of a local directory the
  local retrieval raises \<^verbatim>\<open>JSONDecodeError\<close> with the world unchanged when that
  directory comes first, and the construction over any sequence that contains the
  directory raises, having called the external process for nothing but the global
  listing. Only a missing or an empty entry is a cache miss.
\<close>

theorem corrupt_cache_entry_raises:
  assumes hc: "has_cache ctx" and ne: "v \<noteq> []" and bad: "json_loads rt v = None"
  shows "(cache s (get_cache_key ctx ''component_registry_data'') = Some v \<longrightarrow>
            from_dg_context rt ctx dirs s =
              (Inl JSONDecodeError,
               if use_dg_managed_environment ctx then ensure_uv_lock s else s))
       \<and> (cache s (get_cache_key_for_local_components ctx p) = Some v \<longrightarrow>
            retrieve_local_component_types rt ctx (p # paths) s = (Inl JSONDecodeError, s))
       \<and> (cache s (get_cache_key_for_local_components ctx p) = Some v \<and> p \<in> set paths \<longrightarrow>
            (\<exists>e. fst (from_dg_context rt ctx (Some paths) s) = Inl e)
            \<and> (\<forall>c\<in>set (commands (snd (from_dg_context rt ctx (Some paths) s))).
                  c \<in> set (commands s) \<or> c = [''list'', ''component-types'']))"
proof (intro conjI impI)
  define s0 where "s0 = (if use_dg_managed_environment ctx then ensure_uv_lock s else s)"
  have c0: "cache s0 = cache s" "commands s0 = commands s"
    by (simp_all add: s0_def ensure_uv_lock_def)
  {
    assume g: "cache s (get_cache_key ctx ''component_registry_data'') = Some v"
    have "raw_registry_data_of rt ctx s0 = (Inr v, s0)"
      using raw_registry_data_hit[of ctx s0 v rt] hc g ne c0 by simp
    then show "from_dg_context rt ctx dirs s =
              (Inl JSONDecodeError,
               if use_dg_managed_environment ctx then ensure_uv_lock s else s)"
      using bad unfolding from_dg_context_def s0_def[symmetric] Let_def by simp
  }
  {
    assume l: "cache s (get_cache_key_for_local_components ctx p) = Some v"
    show "retrieve_local_component_types rt ctx (p # paths) s = (Inl JSONDecodeError, s)"
      using cached_paths_loop_corrupt_head[OF l ne bad, of paths "[]" "remdups (p # paths)"] hc
      by (simp add: retrieve_local_component_types_def)
  }
  {
    assume a: "cache s (get_cache_key_for_local_components ctx p) = Some v \<and> p \<in> set paths"
    then have l: "cache s0 (get_cache_key_for_local_components ctx p) = Some v"
      and mem: "p \<in> set paths" using c0 by simp_all
    have pne: "paths \<noteq> []" using mem by auto
    obtain x s1 where g: "raw_registry_data_of rt ctx s0 = (x, s1)"
      by (cases "raw_registry_data_of rt ctx s0")
    have l1: "cache s1 (get_cache_key_for_local_components ctx p) = Some v"
      by (rule raw_registry_keeps_entry[OF g l ne])
    obtain e where e: "cached_paths_loop rt ctx s1 paths [] (remdups paths) = Inl e"
      using cached_paths_loop_corrupt[OF l1 ne bad mem] by blast
    have r: "retrieve_local_component_types rt ctx paths s1 = (Inl e, s1)"
      using e hc by (simp add: retrieve_local_component_types_def)
    have res: "\<exists>e'. from_dg_context rt ctx (Some paths) s = (Inl e', s1)"
      using g r pne unfolding from_dg_context_def s0_def[symmetric] Let_def
      by (auto split: sum.splits option.splits)
    then show "\<exists>e. fst (from_dg_context rt ctx (Some paths) s) = Inl e" by auto
    from res have sn: "snd (from_dg_context rt ctx (Some paths) s) = s1" by auto
    show "\<forall>c\<in>set (commands (snd (from_dg_context rt ctx (Some paths) s))).
                  c \<in> set (commands s) \<or> c = [''list'', ''component-types'']"
      unfolding sn using raw_registry_commands[OF g] c0 by auto
  }
qed

theorem corrupt_cache_entry_raises_witness:
  "has_cache example_context \<and> ''<html>'' \<noteq> [] \<and> json_loads example_runtime ''<html>'' = None
   \<and> cache example_corrupt_state (get_cache_key example_context ''component_registry_data'') =
       Some ''<html>''
   \<and> from_dg_context example_runtime example_context (Some [''/b'']) example_corrupt_state =
       (Inl JSONDecodeError, example_corrupt_state)
   \<and> cache example_corrupt_state (get_cache_key_for_local_components example_context ''/a'') =
       Some ''<html>''
   \<and> retrieve_local_component_types example_runtime example_context (''/a'' # [''/b''])
        example_corrupt_state = (Inl JSONDecodeError, example_corrupt_state)
   \<and> cache example_mixed_state (get_cache_key_for_local_components example_context ''/x'') =
       Some ''<html>''
   \<and> ''/x'' \<in> set [''/a'', ''/x'']
   \<and> (\<exists>e. fst (from_dg_context example_runtime example_context (Some [''/a'', ''/x''])
             example_mixed_state) = Inl e)
   \<and> commands (snd (from_dg_context example_runtime example_context
             (Some [''/a'', ''/x'']) example_mixed_state)) = []"
proof -
  have h1: "has_cache example_context" by (simp add: example_context_def)
  have h2: "''<html>'' \<noteq> []" by simp
  have h3: "json_loads example_runtime ''<html>'' = None" by code_simp
  have g: "cache example_corrupt_state (get_cache_key example_context ''component_registry_data'') =
       Some ''<html>''"
    by (simp add: example_context_def example_corrupt_state_def)
  have l: "cache example_corrupt_state (get_cache_key_for_local_components example_context ''/a'') =
       Some ''<html>''"
    by (simp add: example_context_def example_corrupt_state_def)
  have x: "cache example_mixed_state (get_cache_key_for_local_components example_context ''/x'') =
       Some ''<html>''"
    by (simp add: example_context_def example_mixed_state_def)
  have mem: "''/x'' \<in> set [''/a'', ''/x'']" by simp
  have nm: "\<not> use_dg_managed_environment example_context" by (simp add: example_context_def)
  note t1 = corrupt_cache_entry_raises[OF h1 h2 h3,
      of example_corrupt_state "Some [''/b'']" "''/a''" "[''/b'']"]
  have r1: "from_dg_context example_runtime example_context (Some [''/b'']) example_corrupt_state =
       (Inl JSONDecodeError, example_corrupt_state)"
    using t1[THEN conjunct1, THEN mp, OF g] nm by simp
  note r2 = t1[THEN conjunct2, THEN conjunct1, THEN mp, OF l]
  note t2 = corrupt_cache_entry_raises[OF h1 h2 h3,
      of example_mixed_state "Some [''/b'']" "''/x''" "[''/a'', ''/x'']"]
  note r3 = t2[THEN conjunct2, THEN conjunct2, THEN mp, OF conjI[OF x mem]]
  note r3a = conjunct1[OF r3]
  have r3b: "commands (snd (from_dg_context example_runtime example_context
             (Some [''/a'', ''/x'']) example_mixed_state)) = []"
    by code_simp
  show ?thesis by (intro conjI; fact)
qed

subsection \<open>Fetching the directories that are not cached\<close>







text \<open>
  Claim C1. The claim: with \<^verbatim>\<open>/a\<close> cached and \<^verbatim>\<open>/b\<close> not, the external process
  is called once, for \<^verbatim>\<open>/b\<close> only, and the registry holds the entries of the cached
  listing of \<^verbatim>\<open>/a\<close> and those of the part of the response that belongs to \<^verbatim>\<open>/b\<close>.
  The call is made as the claim says. But line 128 hands the whole response, a mapping
  from paths to listings, to the translator of one listing, where line 133 takes the
  part of the path: the listing of \<^verbatim>\<open>/b\<close> is passed as if it were the metadata of a
  type named \<^verbatim>\<open>/b\<close>, and the construction raises \<^verbatim>\<open>TypeError\<close> instead of returning
  the registry with the entry that the part of \<^verbatim>\<open>/b\<close> translates to.
\<close>

theorem batch_response_translated_whole:
  "cached_entry_valid example_runtime example_context example_state ''/a''
   \<and> cache_get example_state (get_cache_key_for_local_components example_context ''/b'') = None
   \<and> external_components_command example_context
        [''list'', ''local-component-types'', ''/b''] = Inr example_batch_text
   \<and> json_loads example_runtime example_batch_text =
        Some (JObj [(''/b'', JObj [(''Bar@ns'', example_metadata)])])
   \<and> commands (snd (from_dg_context example_runtime example_context (Some [''/a'', ''/b''])
        example_state)) = [[''list'', ''local-component-types'', ''/b'']]
   \<and> fst (from_dg_context example_runtime example_context (Some [''/a'', ''/b''])
        example_state) = Inl TypeError
   \<and> get_local_type_mapping_from_raw_data (JObj [(''Bar@ns'', example_metadata)]) ''/b'' =
        Inr [(LocalComponentKey ''Bar'' ''ns'' ''/b'', example_descriptor)]"
proof -
  have h1: "cached_entry_valid example_runtime example_context example_state ''/a''"
    by code_simp
  have h2: "cache_get example_state
      (get_cache_key_for_local_components example_context ''/b'') = None"
    by (simp add: cache_get_def example_state_def example_context_def)
  have h3: "external_components_command example_context
        [''list'', ''local-component-types'', ''/b''] = Inr example_batch_text"
    by (simp add: example_context_def example_command_def)
  have h4: "json_loads example_runtime example_batch_text =
        Some (JObj [(''/b'', JObj [(''Bar@ns'', example_metadata)])])"
    by code_simp
  have h5: "commands (snd (from_dg_context example_runtime example_context
        (Some [''/a'', ''/b'']) example_state)) = [[''list'', ''local-component-types'', ''/b'']]"
    by code_simp
  have h6: "fst (from_dg_context example_runtime example_context (Some [''/a'', ''/b''])
        example_state) = Inl TypeError"
    by code_simp
  have h7: "get_local_type_mapping_from_raw_data (JObj [(''Bar@ns'', example_metadata)]) ''/b'' =
        Inr [(LocalComponentKey ''Bar'' ''ns'' ''/b'', example_descriptor)]"
    by code_simp
  show ?thesis by (intro conjI; fact)
qed

end
